theory Spec2Isabelle
  imports Complex_Main "HOL-Library.AList"
begin

section \<open>JavaScript values used by the sentiment analyzer\<close>

subsection \<open>Numbers\<close>

text \<open>
  The analyzer of \<^verbatim>\<open>src/lib/sentiment/sentiment-analyzer.js\<close> computes with JavaScript
  numbers, the IEEE 754 binary64 doubles. A number is a finite double (given by its real
  value), one of the two infinities, or \<^verbatim>\<open>NaN\<close>. The two zeros are not distinguished:
  no divisor of the program is a negative zero, and the sign of a zero shows nowhere else.

  \<open>fl\<close> rounds a real to the nearest double, ties to the even significand: doubles
  around \<open>x\<close> are the multiples of \<open>2 powi ulp_exponent x\<close> (53 significant bits, the
  least exponent -1022 for the subnormal numbers), and a rounded value of magnitude
  \<open>overflow_bound\<close> or more is an infinity. Each arithmetic operator returns the exact result
  rounded by \<open>fl\<close>; \<^verbatim>\<open>Math.sqrt\<close> is the correctly rounded square root.
\<close>

datatype jsnum = Num real | PosInf | NegInf | NaN

definition round_half_even :: "real \<Rightarrow> int" where
  "round_half_even x =
     (let f = \<lfloor>x\<rfloor>; d = x - of_int f
      in if d < 1 / 2 then f
         else if 1 / 2 < d then f + 1
         else if even f then f else f + 1)"

definition ulp_exponent :: "real \<Rightarrow> int" where
  "ulp_exponent x = max \<lfloor>log 2 \<bar>x\<bar>\<rfloor> (- 1022) - 52"

definition overflow_bound :: real where
  "overflow_bound = 2 ^ 1024"

definition fl :: "real \<Rightarrow> jsnum" where
  "fl x =
     (if x = 0 then Num 0
      else
        let q = 2 powi ulp_exponent x;
            r = of_int (round_half_even (x / q)) * q
        in if overflow_bound \<le> \<bar>r\<bar> then (if 0 < x then PosInf else NegInf) else Num r)"

text \<open>The least positive double.\<close>

definition min_double :: real where
  "min_double = 2 powi (- 1074)"

text \<open>The operators \<^verbatim>\<open>+\<close>, \<^verbatim>\<open>*\<close> and \<^verbatim>\<open>/\<close>.\<close>

fun js_add :: "jsnum \<Rightarrow> jsnum \<Rightarrow> jsnum" where
  "js_add (Num a) (Num b) = fl (a + b)"
| "js_add NaN _ = NaN"
| "js_add _ NaN = NaN"
| "js_add PosInf NegInf = NaN"
| "js_add NegInf PosInf = NaN"
| "js_add PosInf _ = PosInf"
| "js_add _ PosInf = PosInf"
| "js_add NegInf _ = NegInf"
| "js_add _ NegInf = NegInf"

fun js_mul :: "jsnum \<Rightarrow> jsnum \<Rightarrow> jsnum" where
  "js_mul (Num a) (Num b) = fl (a * b)"
| "js_mul NaN _ = NaN"
| "js_mul _ NaN = NaN"
| "js_mul (Num a) PosInf = (if a = 0 then NaN else if 0 < a then PosInf else NegInf)"
| "js_mul (Num a) NegInf = (if a = 0 then NaN else if 0 < a then NegInf else PosInf)"
| "js_mul PosInf (Num b) = (if b = 0 then NaN else if 0 < b then PosInf else NegInf)"
| "js_mul NegInf (Num b) = (if b = 0 then NaN else if 0 < b then NegInf else PosInf)"
| "js_mul PosInf PosInf = PosInf"
| "js_mul NegInf NegInf = PosInf"
| "js_mul PosInf NegInf = NegInf"
| "js_mul NegInf PosInf = NegInf"

fun js_div :: "jsnum \<Rightarrow> jsnum \<Rightarrow> jsnum" where
  "js_div (Num a) (Num b) =
     (if b = 0 then (if a = 0 then NaN else if 0 < a then PosInf else NegInf)
      else fl (a / b))"
| "js_div (Num a) PosInf = Num 0"
| "js_div (Num a) NegInf = Num 0"
| "js_div PosInf (Num b) = (if 0 \<le> b then PosInf else NegInf)"
| "js_div NegInf (Num b) = (if 0 \<le> b then NegInf else PosInf)"
| "js_div _ _ = NaN"

text \<open>\<^verbatim>\<open>Math.sqrt\<close>: \<^verbatim>\<open>NaN\<close> below zero.\<close>

fun js_sqrt :: "jsnum \<Rightarrow> jsnum" where
  "js_sqrt (Num a) = (if a < 0 then NaN else fl (sqrt a))"
| "js_sqrt PosInf = PosInf"
| "js_sqrt NegInf = NaN"
| "js_sqrt NaN = NaN"

text \<open>The operator \<^verbatim>\<open><\<close>: every comparison with \<^verbatim>\<open>NaN\<close> is false.\<close>

fun js_less :: "jsnum \<Rightarrow> jsnum \<Rightarrow> bool" where
  "js_less (Num a) (Num b) = (a < b)"
| "js_less NaN _ = False"
| "js_less _ NaN = False"
| "js_less NegInf NegInf = False"
| "js_less NegInf _ = True"
| "js_less PosInf _ = False"
| "js_less (Num a) PosInf = True"
| "js_less (Num a) NegInf = False"

subsection \<open>Property values and objects\<close>

text \<open>
  What a property read of the program can give: a number, or a member that a plain
  object inherits from \<^verbatim>\<open>Object.prototype\<close> (a function, or for \<^verbatim>\<open>__proto__\<close> the
  prototype itself). A value that may be \<^verbatim>\<open>undefined\<close> is an option, \<open>None\<close> being
  \<^verbatim>\<open>undefined\<close>. \<open>ToNumber\<close> is the conversion a numeric operator applies to its
  operand: \<^verbatim>\<open>undefined\<close>, a function and an object all become \<^verbatim>\<open>NaN\<close>.
\<close>

datatype jsval = Number real | Inherited

definition ToNumber :: "jsval option \<Rightarrow> jsnum" where
  "ToNumber v = (case v of None \<Rightarrow> NaN | Some (Number w) \<Rightarrow> Num w | Some Inherited \<Rightarrow> NaN)"

text \<open>
  \<^verbatim>\<open>n[i]\<close> for a number \<open>n\<close>: a number has no indexed property, the value is
  \<^verbatim>\<open>undefined\<close>.
\<close>

definition number_property :: "nat \<Rightarrow> nat \<Rightarrow> jsval option" where
  "number_property n i = None"

text \<open>
  \<^verbatim>\<open>s[0]\<close> for a string \<open>s\<close>: its first character as a string, \<^verbatim>\<open>undefined\<close> for
  the empty string. Used as a property key, \<^verbatim>\<open>undefined\<close> is the string
  \<^verbatim>\<open>"undefined"\<close>.
\<close>

definition char_at0 :: "string \<Rightarrow> string option" where
  "char_at0 s = (case s of [] \<Rightarrow> None | c # _ \<Rightarrow> Some [c])"

definition property_key :: "string option \<Rightarrow> string" where
  "property_key k = (case k of None \<Rightarrow> ''undefined'' | Some s \<Rightarrow> s)"

text \<open>
  A plain object with string keys and numeric values (the lexicon that \<^verbatim>\<open>JSON.parse\<close>
  returns, the override dictionary, the stemmed lexicon) is the association list of its
  own properties in the order \<^verbatim>\<open>Object.keys\<close> enumerates them: the keys that are array
  indices first, in ascending numeric order, then the other keys in the order of their
  creation. \<open>array_index\<close> recognises an array index: a decimal numeral without a
  leading zero, below \<open>2 ^ 32 - 1\<close>.
\<close>

type_synonym 'v js_object = "(string \<times> 'v) list"

definition digit_value :: "char \<Rightarrow> nat option" where
  "digit_value c =
     map_of [(CHR ''0'', 0), (CHR ''1'', 1), (CHR ''2'', 2), (CHR ''3'', 3), (CHR ''4'', 4),
             (CHR ''5'', 5), (CHR ''6'', 6), (CHR ''7'', 7), (CHR ''8'', 8), (CHR ''9'', 9)] c"

fun digits_value :: "nat \<Rightarrow> string \<Rightarrow> nat option" where
  "digits_value n [] = Some n"
| "digits_value n (c # cs) =
     (case digit_value c of None \<Rightarrow> None | Some d \<Rightarrow> digits_value (10 * n + d) cs)"

definition array_index :: "string \<Rightarrow> nat option" where
  "array_index s =
     (case s of
        [] \<Rightarrow> None
      | c # cs \<Rightarrow>
          if c = CHR ''0'' \<and> cs \<noteq> [] then None
          else (case digits_value 0 s of
                  None \<Rightarrow> None
                | Some n \<Rightarrow> if n < 4294967295 then Some n else None))"

text \<open>
  The names of the members of \<^verbatim>\<open>Object.prototype\<close>. A property read \<^verbatim>\<open>obj[k]\<close> gives the
  own property when there is one, else the inherited member when \<open>k\<close> names one, else
  \<^verbatim>\<open>undefined\<close>.
\<close>

definition object_prototype_keys :: "string list" where
  "object_prototype_keys =
     [''constructor'', ''__defineGetter__'', ''__defineSetter__'', ''hasOwnProperty'',
      ''__lookupGetter__'', ''__lookupSetter__'', ''isPrototypeOf'', ''propertyIsEnumerable'',
      ''toString'', ''valueOf'', ''__proto__'', ''toLocaleString'']"

definition obj_own :: "'v js_object \<Rightarrow> string \<Rightarrow> 'v option" where
  "obj_own obj k = map_of obj k"

definition obj_get :: "real js_object \<Rightarrow> string \<Rightarrow> jsval option" where
  "obj_get obj k =
     (case obj_own obj k of
        Some w \<Rightarrow> Some (Number w)
      | None \<Rightarrow> if k \<in> set object_prototype_keys then Some Inherited else None)"

text \<open>
  An assignment \<^verbatim>\<open>obj[k] = v\<close> of a number: an own property keeps its place; a new
  key \<^verbatim>\<open>__proto__\<close> runs the inherited setter, which ignores a number and creates no
  property; a new array index goes to its numeric place among the array indices; any
  other new key goes to the end.
\<close>

fun insert_index :: "nat \<Rightarrow> string \<Rightarrow> 'v \<Rightarrow> 'v js_object \<Rightarrow> 'v js_object" where
  "insert_index n k v [] = [(k, v)]"
| "insert_index n k v (p # ps) =
     (case array_index (fst p) of
        None \<Rightarrow> (k, v) # p # ps
      | Some m \<Rightarrow> if m < n then p # insert_index n k v ps else (k, v) # p # ps)"

definition obj_set :: "'v js_object \<Rightarrow> string \<Rightarrow> 'v \<Rightarrow> 'v js_object" where
  "obj_set obj k v =
     (if obj_own obj k \<noteq> None then AList.update k v obj
      else if k = ''__proto__'' then obj
      else (case array_index k of
              None \<Rightarrow> obj @ [(k, v)]
            | Some n \<Rightarrow> insert_index n k v obj))"

text \<open>
  \<open>obj_entries\<close> lists each own property once, with its value, in enumeration order:
  what \<^verbatim>\<open>Object.keys(o).forEach(k => ... o[k] ...)\<close> visits.
\<close>

definition obj_entries :: "'v js_object \<Rightarrow> (string \<times> 'v) list" where
  "obj_entries obj = AList.clearjunk obj"

text \<open>
  A \<^verbatim>\<open>TypeError\<close> is what reading a property of \<^verbatim>\<open>undefined\<close> throws. \<open>forEach\<close> runs a
  callback that updates the state over an array and stops at the first exception.
\<close>

datatype js_error = TypeError

fun forEach :: "('s \<Rightarrow> 'a \<Rightarrow> js_error + 's) \<Rightarrow> 's \<Rightarrow> 'a list \<Rightarrow> js_error + 's" where
  "forEach f st [] = Inr st"
| "forEach f st (x # xs) =
     (case f st x of Inl e \<Rightarrow> Inl e | Inr st' \<Rightarrow> forEach f st' xs)"

text \<open>
  \<^verbatim>\<open>String.prototype.toLowerCase\<close> is a parameter of the model (named \<open>toLowerCase\<close>
  below), so that every theorem holds for the lower-casing of the host. The examples use
  the lower-casing of the ASCII letters.
\<close>

definition toLowerCase_ascii :: "string \<Rightarrow> string" where
  "toLowerCase_ascii s =
     map (\<lambda>c. case map_of (zip ''ABCDEFGHIJKLMNOPQRSTUVWXYZ'' ''abcdefghijklmnopqrstuvwxyz'') c of
                 None \<Rightarrow> c | Some d \<Rightarrow> d) s"

section \<open>The analyzer\<close>

text \<open>
  The fields of \<^verbatim>\<open>this.settings\<close> and of \<^verbatim>\<open>this\<close>. The tokenizer and the stemmer are
  the functions \<^verbatim>\<open>tokenize\<close> and \<^verbatim>\<open>tokenizeAndStem\<close> of the objects the program holds;
  they are taken to be pure. A field that may be \<^verbatim>\<open>undefined\<close> is an option.
\<close>

record settings =
  language :: string
  type :: string
  useStemmer :: bool
  tokenizer :: "string \<Rightarrow> string list"

record analyzer =
  settings :: settings
  dict :: "real js_object option"
  stemmer :: "(string \<Rightarrow> string list) option"
  vocabularyFileName :: string
  negationFileName :: string
  negationPunctuationFileName :: string
  vocabulary :: "real js_object option"
  vocabularyStem :: "real js_object option"
  negations :: "string list"
  negationPunctuations :: "string list"

text \<open>
  What the file system answers to \<^verbatim>\<open>loadVocabulary\<close>: the parsed lexicon file (\<open>None\<close>
  when reading or parsing throws), the \<^verbatim>\<open>words\<close> of the negation file and the
  \<^verbatim>\<open>punctuation\<close> of the negation punctuation file (\<open>None\<close> when \<^verbatim>\<open>require\<close> throws or
  the member is missing: both ways the program takes the empty array).
\<close>

record host_files =
  readVocabulary :: "string \<Rightarrow> real js_object option"
  requireWords :: "string \<Rightarrow> string list option"
  requirePunctuation :: "string \<Rightarrow> string list option"

subsection \<open>addVocabulary and loadVocabulary\<close>

text \<open>
  The callback of the loop of \<^verbatim>\<open>addVocabulary\<close>:
  \<^verbatim>\<open>this.vocabulary[key] = this.dict[key]\<close>.
\<close>

definition set_word :: "analyzer \<Rightarrow> string \<times> real \<Rightarrow> js_error + analyzer" where
  "set_word a e =
     (case e of (key, w) \<Rightarrow>
        (case vocabulary a of
           None \<Rightarrow> Inl TypeError
         | Some v \<Rightarrow> Inr (a\<lparr>vocabulary := Some (obj_set v key w)\<rparr>)))"

definition addVocabulary :: "analyzer \<Rightarrow> js_error + analyzer" where
  "addVocabulary this =
     (case dict this of
        None \<Rightarrow> Inr this
      | Some d \<Rightarrow> forEach set_word this (obj_entries d))"

text \<open>
  The callback of the loop that fills \<^verbatim>\<open>this.vocabularyStem\<close>: a word whose stemming
  gives exactly one token writes its weight at that token.
\<close>

definition stem_word :: "(string \<Rightarrow> string list) \<Rightarrow> real js_object \<Rightarrow> string \<times> real \<Rightarrow> real js_object" where
  "stem_word tokenizeAndStem vs e =
     (case e of (word, w) \<Rightarrow>
        (case tokenizeAndStem word of
           [t] \<Rightarrow> obj_set vs t w
         | _ \<Rightarrow> vs))"

text \<open>
  The entries of a lexicon that write the stemmed lexicon at the stem \<open>s\<close>, in the order
  the loop visits them.
\<close>

definition stem_writers ::
  "(string \<Rightarrow> string list) \<Rightarrow> string \<Rightarrow> (string \<times> real) list \<Rightarrow> (string \<times> real) list" where
  "stem_writers tokenizeAndStem s es = filter (\<lambda>e. tokenizeAndStem (fst e) = [s]) es"

text \<open>
  The lexicon that \<^verbatim>\<open>addVocabulary\<close> leaves: the assignments of the override entries, in
  the order of the override dictionary's keys, applied to the lexicon.
\<close>

definition merge_override :: "real js_object \<Rightarrow> real js_object \<Rightarrow> real js_object" where
  "merge_override base d = foldl (\<lambda>obj e. obj_set obj (fst e) (snd e)) base (obj_entries d)"

text \<open>The three file names, built from the language and the type of the settings.\<close>

definition vocabulary_file :: "settings \<Rightarrow> string" where
  "vocabulary_file s =
     ''./languages/'' @ language s @ ''/'' @ type s @ ''_'' @ language s @ ''.json''"

definition negation_file :: "settings \<Rightarrow> string" where
  "negation_file s = ''./languages/'' @ language s @ ''/negations_'' @ language s @ ''.json''"

definition negationPunctuation_file :: "settings \<Rightarrow> string" where
  "negationPunctuation_file s =
     ''./languages/'' @ language s @ ''/negationPunctuations_'' @ language s @ ''.json''"

text \<open>
  \<open>loadedFiles\<close> is the static \<^verbatim>\<open>SentimentAnalyzer.loadedFiles\<close>, the set of the
  file names it marks. \<open>derive_stems\<close> is the part of \<^verbatim>\<open>loadVocabulary\<close> that sets
  \<^verbatim>\<open>this.vocabularyStem\<close> to the empty object and fills it when there is a stemmer;
  \<open>load_lexicon\<close> is the part that reads the lexicon, merges the override dictionary,
  then derives the stemmed lexicon and marks the file; \<open>loadVocabulary\<close> sets the file
  names first and reads the two negation tables last.
\<close>

definition derive_stems :: "analyzer \<Rightarrow> js_error + analyzer" where
  "derive_stems this =
     (let this' = this\<lparr>vocabularyStem := Some []\<rparr>
      in (case stemmer this' of
            None \<Rightarrow> Inr this'
          | Some tokenizeAndStem \<Rightarrow>
              (case vocabulary this' of
                 None \<Rightarrow> Inl TypeError
               | Some vocab \<Rightarrow>
                   Inr (this'\<lparr>vocabularyStem :=
                          Some (foldl (stem_word tokenizeAndStem) [] (obj_entries vocab))\<rparr>))))"

definition load_lexicon ::
  "host_files \<Rightarrow> analyzer \<times> string set \<Rightarrow> js_error + (analyzer \<times> string set)" where
  "load_lexicon files s =
     (case s of (this1, loadedFiles) \<Rightarrow>
      (let this2 = this1\<lparr>vocabulary := readVocabulary files (vocabularyFileName this1)\<rparr>
       in (case vocabulary this2 of
             None \<Rightarrow> Inr (this2, loadedFiles)
           | Some _ \<Rightarrow>
               (case (if dict this2 \<noteq> None then addVocabulary this2 else Inr this2) of
                  Inl e \<Rightarrow> Inl e
                | Inr this3 \<Rightarrow>
                    (case derive_stems this3 of
                       Inl e \<Rightarrow> Inl e
                     | Inr this4 \<Rightarrow>
                         Inr (this4,
                              if vocabulary this4 \<noteq> None
                              then insert (vocabularyFileName this4) loadedFiles
                              else loadedFiles))))))"

definition loadVocabulary ::
  "host_files \<Rightarrow> analyzer \<times> string set \<Rightarrow> js_error + (analyzer \<times> string set)" where
  "loadVocabulary files s =
     (case s of (this0, loadedFiles) \<Rightarrow>
      (let this1 = this0\<lparr>
             vocabularyFileName := vocabulary_file (settings this0),
             negationFileName := negation_file (settings this0),
             negationPunctuationFileName := negationPunctuation_file (settings this0)\<rparr>
       in (case load_lexicon files (this1, loadedFiles) of
             Inl e \<Rightarrow> Inl e
           | Inr (this4, loadedFiles') \<Rightarrow>
               Inr (this4\<lparr>
                      negations :=
                        (case requireWords files (negationFileName this4) of
                           None \<Rightarrow> [] | Some ws \<Rightarrow> ws),
                      negationPunctuations :=
                        (case requirePunctuation files (negationPunctuationFileName this4) of
                           None \<Rightarrow> [] | Some ps \<Rightarrow> ps)\<rparr>,
                    loadedFiles'))))"

subsection \<open>normalize\<close>

definition normalize_score :: "jsnum \<Rightarrow> jsnum \<Rightarrow> jsnum" where
  "normalize_score score alpha =
     (let normScore = js_div score (js_sqrt (js_add (js_mul score score) alpha))
      in if js_less normScore (Num (- 1)) then Num (- 1)
         else if js_less (Num 1) normScore then Num 1
         else normScore)"

text \<open>The default value of the parameter \<^verbatim>\<open>alpha\<close>.\<close>

definition normalize_default :: "jsnum \<Rightarrow> jsnum" where
  "normalize_default score = normalize_score score (Num 15)"

text \<open>The two comparisons at the end of \<^verbatim>\<open>normalize\<close>, as a function of \<^verbatim>\<open>normScore\<close>.\<close>

definition clamp :: "jsnum \<Rightarrow> jsnum" where
  "clamp n = (if js_less n (Num (- 1)) then Num (- 1) else if js_less (Num 1) n then Num 1 else n)"

subsection \<open>getSentiment\<close>

record word_score =
  ws_word :: "string option"
  ws_score :: jsnum

record sentiment_result =
  res_score :: jsnum
  numWords :: nat
  numHits :: nat
  res_range :: "jsnum option"
  comparative :: jsnum
  res_type :: string
  res_language :: string
  res_wordScores :: "word_score list option"

text \<open>The local variables of \<^verbatim>\<open>getSentiment\<close> that its loop updates.\<close>

record scan_state =
  score :: jsnum
  negator :: real
  nrHits :: nat
  wordScores :: "word_score list"

datatype utterance = Tokens "string list" | Text string

text \<open>
  The callback of \<^verbatim>\<open>words.forEach\<close>, branch by branch. In the stemmer branch the program
  looks \<^verbatim>\<open>token[0]\<close> up (the first character of the token as it came), and guards the
  lookup in \<^verbatim>\<open>this.vocabularyStem\<close> by \<^verbatim>\<open>tokens.length === 1 && tokens.length[0] < 2\<close>.
\<close>

definition scan_token ::
  "(string \<Rightarrow> string) \<Rightarrow> analyzer \<Rightarrow> scan_state \<Rightarrow> string \<Rightarrow> js_error + scan_state" where
  "scan_token toLowerCase this st token =
     (let lowerCased = toLowerCase token in
      if lowerCased \<in> set (negations this) then
        Inr (st\<lparr>negator := - 1, nrHits := nrHits st + 1\<rparr>)
      else if lowerCased \<in> set (negationPunctuations this) then
        Inr (st\<lparr>negator := 1\<rparr>)
      else
        case vocabulary this of
          None \<Rightarrow> Inl TypeError
        | Some vocab \<Rightarrow>
           (case obj_get vocab lowerCased of
              Some w \<Rightarrow>
                (let temp = js_mul (Num (negator st)) (ToNumber (Some w)) in
                 Inr (st\<lparr>score := js_add (score st) temp, nrHits := nrHits st + 1,
                        wordScores := wordScores st @
                          [\<lparr>ws_word = Some lowerCased,
                            ws_score = js_mul (Num (negator st)) (ToNumber (Some w))\<rparr>]\<rparr>))
            | None \<Rightarrow>
               (case stemmer this of
                  None \<Rightarrow> Inr st
                | Some tokenizeAndStem \<Rightarrow>
                   (let tokens = tokenizeAndStem lowerCased in
                    case obj_get vocab (property_key (char_at0 token)) of
                      Some w0 \<Rightarrow>
                        (let temp = js_mul (Num (negator st)) (ToNumber (Some w0)) in
                         Inr (st\<lparr>score := js_add (score st) temp, nrHits := nrHits st + 1,
                                wordScores := wordScores st @
                                  [\<lparr>ws_word = char_at0 token,
                                    ws_score =
                                      js_mul (Num (negator st))
                                        (ToNumber (obj_get vocab lowerCased))\<rparr>]\<rparr>))
                    | None \<Rightarrow>
                        if length tokens = 1 \<and>
                           js_less (ToNumber (number_property (length tokens) 0)) (Num 2)
                        then
                          (case vocabularyStem this of
                             None \<Rightarrow> Inl TypeError
                           | Some vstem \<Rightarrow>
                              (case obj_get vstem (tokens ! 0) of
                                 Some ws \<Rightarrow>
                                   (let temp = js_mul (Num (negator st)) (ToNumber (Some ws)) in
                                    Inr (st\<lparr>score := js_add (score st) temp,
                                           nrHits := nrHits st + 1,
                                           wordScores := wordScores st @
                                             [\<lparr>ws_word = char_at0 token,
                                               ws_score =
                                                 js_mul (Num (negator st))
                                                   (ToNumber (Some ws))\<rparr>]\<rparr>))
                               | None \<Rightarrow> Inr st))
                        else Inr st))))"

text \<open>The array \<^verbatim>\<open>words\<close>: the caller's tokens, or the tokenizer's.\<close>

definition words_of :: "analyzer \<Rightarrow> utterance \<Rightarrow> string list" where
  "words_of this utterance =
     (case utterance of
        Tokens ts \<Rightarrow> ts
      | Text s \<Rightarrow> tokenizer (settings this) s)"

definition scan_init :: scan_state where
  "scan_init = \<lparr>score = Num 0, negator = 1, nrHits = 0, wordScores = []\<rparr>"

text \<open>
  \<^verbatim>\<open>getSentiment\<close> returns its result (or the exception thrown) and the analyzer as the
  call leaves it.
\<close>

definition getSentiment ::
  "(string \<Rightarrow> string) \<Rightarrow> analyzer \<Rightarrow> utterance \<Rightarrow> (js_error + sentiment_result) \<times> analyzer" where
  "getSentiment toLowerCase this utterance =
     (let words = words_of this utterance in
      if vocabulary this = None then
        (Inr \<lparr>res_score = Num 0, numWords = length words, numHits = 0, res_range = None,
              comparative = Num 0, res_type = type (settings this),
              res_language = language (settings this), res_wordScores = None\<rparr>,
         this)
      else
        case forEach (scan_token toLowerCase this) scan_init words of
          Inl e \<Rightarrow> (Inl e, this)
        | Inr st \<Rightarrow>
            (Inr \<lparr>res_score = score st, numWords = length words, numHits = nrHits st,
                  res_range = Some (normalize_default (score st)),
                  comparative = js_div (score st) (Num (real (length words))),
                  res_type = type (settings this),
                  res_language = language (settings this),
                  res_wordScores = Some (wordScores st)\<rparr>,
             this))"

section \<open>Example configurations\<close>

text \<open>
  An English analyzer with a two-word lexicon, one negator and one negation punctuation;
  its stemmer maps \<^verbatim>\<open>goods\<close> to \<^verbatim>\<open>good\<close> and leaves every other word alone, its
  tokenizer returns the text as one token. \<open>ex_unloaded\<close> is the same analyzer when no
  lexicon file was found.
\<close>

definition ex_settings :: settings where
  "ex_settings =
     \<lparr>language = ''en'', type = ''senticon'', useStemmer = True, tokenizer = (\<lambda>s. [s])\<rparr>"

definition ex_stem :: "string \<Rightarrow> string list" where
  "ex_stem w = (if w = ''goods'' then [''good''] else [w])"

definition ex_analyzer :: analyzer where
  "ex_analyzer =
     \<lparr>settings = ex_settings, dict = None, stemmer = Some ex_stem,
      vocabularyFileName = ''./languages/en/senticon_en.json'',
      negationFileName = ''./languages/en/negations_en.json'',
      negationPunctuationFileName = ''./languages/en/negationPunctuations_en.json'',
      vocabulary = Some [(''good'', 3), (''bad'', - 2)],
      vocabularyStem = Some [(''good'', 3), (''bad'', - 2)],
      negations = [''not''], negationPunctuations = ['','']\<rparr>"

definition ex_unloaded :: analyzer where
  "ex_unloaded = ex_analyzer\<lparr>vocabulary := None, vocabularyStem := None\<rparr>"

text \<open>
  An analyzer before \<^verbatim>\<open>loadVocabulary\<close> runs, whose override dictionary gives \<^verbatim>\<open>love\<close>
  the weight 10 and whose stemmer maps \<^verbatim>\<open>loves\<close> to \<^verbatim>\<open>love\<close>; and two file systems:
  in \<open>ex_files_love\<close> the lexicon holds \<^verbatim>\<open>love\<close> and then \<^verbatim>\<open>loves\<close>, in
  \<open>ex_files_loves\<close> it holds \<^verbatim>\<open>loves\<close> only.
\<close>

definition ex_files_love :: host_files where
  "ex_files_love =
     \<lparr>readVocabulary =
        (\<lambda>f. if f = ''./languages/en/senticon_en.json'' then Some [(''love'', 3), (''loves'', 2)]
             else None),
      requireWords = (\<lambda>f. None),
      requirePunctuation = (\<lambda>f. None)\<rparr>"

definition ex_files_loves :: host_files where
  "ex_files_loves =
     \<lparr>readVocabulary =
        (\<lambda>f. if f = ''./languages/en/senticon_en.json'' then Some [(''loves'', 2)] else None),
      requireWords = (\<lambda>f. None),
      requirePunctuation = (\<lambda>f. None)\<rparr>"

definition ex_stem_love :: "string \<Rightarrow> string list" where
  "ex_stem_love w = (if w = ''loves'' then [''love''] else [w])"

definition ex_fresh_love :: analyzer where
  "ex_fresh_love =
     \<lparr>settings = ex_settings, dict = Some [(''love'', 10)], stemmer = Some ex_stem_love,
      vocabularyFileName = [], negationFileName = [], negationPunctuationFileName = [],
      vocabulary = None, vocabularyStem = None, negations = [], negationPunctuations = []\<rparr>"

text \<open>
  The same analyzer with an override dictionary whose only key is \<^verbatim>\<open>__proto__\<close> (as
  \<^verbatim>\<open>JSON.parse\<close> creates it), and a file system whose lexicon holds \<^verbatim>\<open>good\<close> only.
\<close>

definition ex_fresh_proto :: analyzer where
  "ex_fresh_proto = ex_fresh_love\<lparr>dict := Some [(''__proto__'', 5)]\<rparr>"

definition ex_files_good :: host_files where
  "ex_files_good =
     \<lparr>readVocabulary =
        (\<lambda>f. if f = ''./languages/en/senticon_en.json'' then Some [(''good'', 3)] else None),
      requireWords = (\<lambda>f. None),
      requirePunctuation = (\<lambda>f. None)\<rparr>"

text \<open>
  An analyzer whose lexicon gives the word \<^verbatim>\<open>huge\<close> the weight \<open>2 ^ 1023\<close>, a double
  whose sum with itself is no finite double.
\<close>

definition huge_weight :: real where
  "huge_weight = 2 ^ 1023"

definition ex_huge :: analyzer where
  "ex_huge = ex_analyzer\<lparr>vocabulary := Some [(''huge'', huge_weight)]\<rparr>"

section \<open>Rounding to the nearest double\<close>

lemma two_powr_powi: "(2::real) powr real_of_int k = 2 powi k"
  by (rule powr_real_of_int') simp_all

lemma exponent_bounds:
  assumes "x \<noteq> 0"
  shows "2 powi \<lfloor>log 2 \<bar>x\<bar>\<rfloor> \<le> \<bar>x\<bar>" and "\<bar>x\<bar> < 2 powi (\<lfloor>log 2 \<bar>x\<bar>\<rfloor> + 1)"
proof -
  have p: "0 < \<bar>x\<bar>" using assms by simp
  have "(2::real) powr \<lfloor>log 2 \<bar>x\<bar>\<rfloor> \<le> \<bar>x\<bar> \<and> \<bar>x\<bar> < 2 powr (\<lfloor>log 2 \<bar>x\<bar>\<rfloor> + 1)"
    using floor_log_eq_powr_iff [OF p, of 2 "\<lfloor>log 2 \<bar>x\<bar>\<rfloor>"] by simp
  then have a: "(2::real) powr real_of_int \<lfloor>log 2 \<bar>x\<bar>\<rfloor> \<le> \<bar>x\<bar>"
    and b: "\<bar>x\<bar> < 2 powr real_of_int (\<lfloor>log 2 \<bar>x\<bar>\<rfloor> + 1)" by simp_all
  show "2 powi \<lfloor>log 2 \<bar>x\<bar>\<rfloor> \<le> \<bar>x\<bar>" using a by (simp only: two_powr_powi)
  show "\<bar>x\<bar> < 2 powi (\<lfloor>log 2 \<bar>x\<bar>\<rfloor> + 1)" using b by (simp only: two_powr_powi)
qed

lemma exponent_eqI:
  assumes "2 powi e \<le> \<bar>x\<bar>" and "\<bar>x\<bar> < 2 powi (e + 1)"
  shows "\<lfloor>log 2 \<bar>x\<bar>\<rfloor> = e"
proof -
  have "(0::real) < 2 powi e" by simp
  then have p: "0 < \<bar>x\<bar>" using assms(1) by linarith
  have "(2::real) powr real_of_int e \<le> \<bar>x\<bar> \<and> \<bar>x\<bar> < 2 powr (real_of_int e + 1)"
    using assms two_powr_powi [of e] two_powr_powi [of "e + 1"] by simp
  then show ?thesis using floor_log_eq_powr_iff [OF p, of 2 e] by simp
qed

lemma round_half_even_error: "\<bar>of_int (round_half_even x) - x\<bar> \<le> 1 / 2"
  unfolding round_half_even_def Let_def by (auto; linarith)

lemma round_half_even_near:
  assumes "\<bar>x - of_int m\<bar> < 1 / 2"
  shows "round_half_even x = m"
proof -
  have "\<bar>of_int (round_half_even x) - x\<bar> \<le> 1 / 2" by (rule round_half_even_error)
  then have "\<bar>(of_int (round_half_even x) :: real) - of_int m\<bar> < 1" using assms by linarith
  then have "\<bar>real_of_int (round_half_even x - m)\<bar> < 1" by simp
  then have "\<bar>round_half_even x - m\<bar> < 1" by linarith
  then show ?thesis by simp
qed

lemma round_half_even_of_int: "round_half_even (of_int m) = m"
  by (rule round_half_even_near) simp

lemma round_half_even_ge:
  assumes "of_int m \<le> x"
  shows "m \<le> round_half_even x"
proof -
  have "m \<le> \<lfloor>x\<rfloor>" using assms by (simp add: le_floor_iff)
  then show ?thesis unfolding round_half_even_def Let_def by auto
qed

lemma round_half_even_le:
  assumes "x \<le> of_int m"
  shows "round_half_even x \<le> m"
proof (cases "x = of_int m")
  case True
  then show ?thesis by (simp add: round_half_even_of_int)
next
  case False
  then have "x < of_int m" using assms by simp
  then have "\<lfloor>x\<rfloor> < m" by (simp add: floor_less_iff)
  then show ?thesis unfolding round_half_even_def Let_def by auto
qed

lemma ulp_exponent_ge: "- 1074 \<le> ulp_exponent x"
  by (simp add: ulp_exponent_def)

lemma min_double_pos: "0 < min_double"
  unfolding min_double_def by (rule zero_less_power_int) simp

lemma min_double_le_ulp: "min_double \<le> 2 powi ulp_exponent x"
  unfolding min_double_def by (rule power_int_increasing) (simp_all add: ulp_exponent_ge)

lemma ulp_exponent_upper:
  assumes "x \<noteq> 0"
  shows "\<bar>x\<bar> < 2 powi (ulp_exponent x + 53)"
proof -
  have "\<bar>x\<bar> < 2 powi (\<lfloor>log 2 \<bar>x\<bar>\<rfloor> + 1)" using assms by (rule exponent_bounds)
  also have "\<dots> \<le> 2 powi (ulp_exponent x + 53)"
    by (rule power_int_increasing) (simp_all add: ulp_exponent_def)
  finally show ?thesis .
qed

lemma exponent_ge:
  assumes "2 powi k \<le> \<bar>x\<bar>"
  shows "k \<le> \<lfloor>log 2 \<bar>x\<bar>\<rfloor>"
proof (rule ccontr)
  assume n: "\<not> k \<le> \<lfloor>log 2 \<bar>x\<bar>\<rfloor>"
  have "(0::real) < 2 powi k" by (rule zero_less_power_int) simp
  then have "0 < \<bar>x\<bar>" using assms by linarith
  then have nz: "x \<noteq> 0" by simp
  from n have "\<lfloor>log 2 \<bar>x\<bar>\<rfloor> + 1 \<le> k" by linarith
  then have "(2::real) powi (\<lfloor>log 2 \<bar>x\<bar>\<rfloor> + 1) \<le> 2 powi k"
    by (intro power_int_increasing) simp_all
  then show False using exponent_bounds(2) [OF nz] assms by linarith
qed

lemma exponent_less:
  assumes "x \<noteq> 0" and "\<bar>x\<bar> < 2 powi k"
  shows "\<lfloor>log 2 \<bar>x\<bar>\<rfloor> < k"
proof (rule ccontr)
  assume "\<not> \<lfloor>log 2 \<bar>x\<bar>\<rfloor> < k"
  then have "k \<le> \<lfloor>log 2 \<bar>x\<bar>\<rfloor>" by linarith
  then have "(2::real) powi k \<le> 2 powi \<lfloor>log 2 \<bar>x\<bar>\<rfloor>"
    by (intro power_int_increasing) simp_all
  then show False using exponent_bounds(1) [OF assms(1)] assms(2) by linarith
qed

lemma ulp_exponent_normal:
  assumes "2 powi (- 1022) \<le> \<bar>x\<bar>"
  shows "2 powi (ulp_exponent x + 52) \<le> \<bar>x\<bar>"
proof -
  have "(0::real) < 2 powi (- 1022)" by (rule zero_less_power_int) simp
  then have "0 < \<bar>x\<bar>" using assms by linarith
  then have nz: "x \<noteq> 0" by simp
  have "- 1022 \<le> \<lfloor>log 2 \<bar>x\<bar>\<rfloor>" using assms by (rule exponent_ge)
  then have "ulp_exponent x + 52 = \<lfloor>log 2 \<bar>x\<bar>\<rfloor>" unfolding ulp_exponent_def by linarith
  then show ?thesis using exponent_bounds(1) [OF nz] by simp
qed

lemma fl_unfold:
  assumes "x \<noteq> 0"
  shows "fl x =
    (if overflow_bound \<le> \<bar>real_of_int (round_half_even (x / 2 powi ulp_exponent x)) * 2 powi ulp_exponent x\<bar>
     then (if 0 < x then PosInf else NegInf)
     else Num (real_of_int (round_half_even (x / 2 powi ulp_exponent x)) * 2 powi ulp_exponent x))"
  using assms by (simp add: fl_def Let_def)

lemma fl_zero [simp]: "fl 0 = Num 0"
  by (simp add: fl_def)

lemma fl_exact:
  assumes x: "x = of_int m * 2 powi k" and k: "- 1074 \<le> k"
    and m: "\<bar>x\<bar> < 2 powi (k + 53)" and fin: "\<bar>x\<bar> < overflow_bound"
  shows "fl x = Num x"
proof (cases "x = 0")
  case True
  then show ?thesis by simp
next
  case False
  define j where "j = ulp_exponent x"
  define q :: real where "q = 2 powi j"
  have q: "0 < q" unfolding q_def by (rule zero_less_power_int) simp
  have "\<lfloor>log 2 \<bar>x\<bar>\<rfloor> < k + 53" using False m by (rule exponent_less)
  then have jk: "j \<le> k" using k unfolding j_def ulp_exponent_def by linarith
  have "(2::real) powi k = 2 powi (k - j) * 2 powi j"
    by (simp add: power_int_add [symmetric])
  also have "(2::real) powi (k - j) = 2 ^ nat (k - j)"
    using jk by (simp add: power_int_nonneg_exp)
  finally have pk: "(2::real) powi k = 2 ^ nat (k - j) * q" by (simp add: q_def)
  have "x / q = of_int m * 2 ^ nat (k - j)"
    unfolding x pk using q by simp
  then have xq: "x / q = of_int (m * 2 ^ nat (k - j))" by simp
  have "round_half_even (x / q) = m * 2 ^ nat (k - j)"
    unfolding xq by (rule round_half_even_of_int)
  then have "real_of_int (round_half_even (x / q)) * q = x / q * q" by (simp only: xq)
  then have r: "real_of_int (round_half_even (x / q)) * q = x" using q by simp
  show ?thesis
    using fin False unfolding fl_unfold [OF False] j_def [symmetric] q_def [symmetric] r by simp
qed

lemma fl_rel:
  assumes lo: "2 powi (- 1022) \<le> \<bar>x\<bar>" and hi: "\<bar>x\<bar> \<le> 2 ^ 1023"
  shows "\<exists>y. fl x = Num y \<and> \<bar>y - x\<bar> \<le> \<bar>x\<bar> / 2 ^ 53"
proof -
  define j where "j = ulp_exponent x"
  define q :: real where "q = 2 powi j"
  define r where "r = real_of_int (round_half_even (x / q)) * q"
  have "(0::real) < 2 powi (- 1022)" by (rule zero_less_power_int) simp
  then have "0 < \<bar>x\<bar>" using lo by linarith
  then have nz: "x \<noteq> 0" by simp
  have q: "0 < q" unfolding q_def by (rule zero_less_power_int) simp
  have "q * 2 ^ 52 = 2 powi (j + 52)" unfolding q_def by (simp add: power_int_add)
  then have qx: "q * 2 ^ 52 \<le> \<bar>x\<bar>" using ulp_exponent_normal [OF lo] by (simp add: j_def)
  have "\<bar>of_int (round_half_even (x / q)) - x / q\<bar> \<le> 1 / 2" by (rule round_half_even_error)
  then have "\<bar>of_int (round_half_even (x / q)) - x / q\<bar> * \<bar>q\<bar> \<le> 1 / 2 * \<bar>q\<bar>"
    by (intro mult_right_mono) simp_all
  then have "\<bar>(of_int (round_half_even (x / q)) - x / q) * q\<bar> \<le> 1 / 2 * \<bar>q\<bar>"
    by (simp only: abs_mult)
  moreover have "(of_int (round_half_even (x / q)) - x / q) * q = r - x"
    using q by (simp add: r_def left_diff_distrib)
  ultimately have "\<bar>r - x\<bar> \<le> 1 / 2 * \<bar>q\<bar>" by (simp only:)
  then have e: "\<bar>r - x\<bar> \<le> q / 2" using q by simp
  have "q / 2 * 2 ^ 53 = q * 2 ^ 52" by simp
  then have "q / 2 * 2 ^ 53 \<le> \<bar>x\<bar>" using qx by simp
  then have "q / 2 \<le> \<bar>x\<bar> / 2 ^ 53" by (simp add: pos_le_divide_eq)
  then have e': "\<bar>r - x\<bar> \<le> \<bar>x\<bar> / 2 ^ 53" using e by linarith
  have "\<bar>x\<bar> / 2 ^ 53 \<le> 2 ^ 1023 / 2 ^ 53" using hi by (intro divide_right_mono) simp_all
  then have "\<bar>r\<bar> \<le> 2 ^ 1023 + 2 ^ 1023 / 2 ^ 53" using e' hi by linarith
  also have "\<dots> < (2::real) ^ 1024" by simp
  finally have "\<not> overflow_bound \<le> \<bar>r\<bar>" by (simp add: overflow_bound_def)
  then have "fl x = Num r"
    unfolding fl_unfold [OF nz] j_def [symmetric] q_def [symmetric] r_def [symmetric] by simp
  then show ?thesis using e' by blast
qed

lemma fl_pos:
  assumes "min_double \<le> x"
  shows "fl x = PosInf \<or> (\<exists>y. fl x = Num y \<and> min_double \<le> y)"
proof -
  define j where "j = ulp_exponent x"
  define q :: real where "q = 2 powi j"
  define n where "n = round_half_even (x / q)"
  have x: "0 < x" using assms min_double_pos by linarith
  then have nz: "x \<noteq> 0" by simp
  have q: "0 < q" unfolding q_def by (rule zero_less_power_int) simp
  have mq: "min_double \<le> q" unfolding q_def j_def by (rule min_double_le_ulp)
  have "q \<le> x"
  proof (cases "2 powi (- 1022) \<le> \<bar>x\<bar>")
    case True
    have "q \<le> 2 powi (j + 52)" unfolding q_def by (intro power_int_increasing) simp_all
    then show ?thesis using ulp_exponent_normal [OF True] x by (simp add: j_def)
  next
    case False
    then have "\<bar>x\<bar> < 2 powi (- 1022)" by simp
    then have "\<lfloor>log 2 \<bar>x\<bar>\<rfloor> < - 1022" using nz by (intro exponent_less)
    then have "j = - 1074" unfolding j_def ulp_exponent_def by linarith
    then show ?thesis using assms by (simp add: q_def min_double_def)
  qed
  then have "of_int 1 \<le> x / q" using q by (simp add: pos_le_divide_eq)
  then have "1 \<le> n" unfolding n_def by (rule round_half_even_ge)
  then have "1 * q \<le> real_of_int n * q" using q by (intro mult_right_mono) simp_all
  then have "min_double \<le> real_of_int n * q" using mq by linarith
  then show ?thesis
    using x unfolding fl_unfold [OF nz] j_def [symmetric] q_def [symmetric] n_def [symmetric]
    by simp
qed

lemma fl_overflow:
  assumes "overflow_bound \<le> x"
  shows "fl x = PosInf"
proof -
  define j where "j = ulp_exponent x"
  define q :: real where "q = 2 powi j"
  define n where "n = round_half_even (x / q)"
  have ob: "overflow_bound = 2 powi 1024" by (simp add: overflow_bound_def)
  have "(0::real) < 2 powi 1024" by (rule zero_less_power_int) simp
  then have x: "0 < x" using assms ob by linarith
  then have nz: "x \<noteq> 0" by simp
  have q: "0 < q" unfolding q_def by (rule zero_less_power_int) simp
  have "2 powi 1024 \<le> \<bar>x\<bar>" using assms ob x by simp
  then have e: "1024 \<le> \<lfloor>log 2 \<bar>x\<bar>\<rfloor>" by (rule exponent_ge)
  then have je: "j + 52 = \<lfloor>log 2 \<bar>x\<bar>\<rfloor>" unfolding j_def ulp_exponent_def by linarith
  have "q * 2 ^ 52 = 2 powi (j + 52)" unfolding q_def by (simp add: power_int_add)
  then have qe: "q * 2 ^ 52 = 2 powi \<lfloor>log 2 \<bar>x\<bar>\<rfloor>" using je by simp
  then have "q * 2 ^ 52 \<le> x" using exponent_bounds(1) [OF nz] x by simp
  then have "of_int (2 ^ 52) \<le> x / q" using q by (simp add: pos_le_divide_eq mult.commute)
  then have "2 ^ 52 \<le> n" unfolding n_def by (rule round_half_even_ge)
  then have "real_of_int (2 ^ 52) \<le> real_of_int n" by (simp only: of_int_le_iff)
  then have "real_of_int (2 ^ 52) * q \<le> real_of_int n * q" using q by (intro mult_right_mono) simp_all
  moreover have "(2::real) powi 1024 \<le> 2 powi \<lfloor>log 2 \<bar>x\<bar>\<rfloor>"
    using e by (intro power_int_increasing) simp_all
  ultimately have "2 powi 1024 \<le> real_of_int n * q" using qe by (simp add: mult.commute)
  moreover have "0 \<le> real_of_int n * q" using calculation \<open>(0::real) < 2 powi 1024\<close> by linarith
  ultimately have "overflow_bound \<le> \<bar>real_of_int n * q\<bar>" using ob by simp
  then show ?thesis
    using x unfolding fl_unfold [OF nz] j_def [symmetric] q_def [symmetric] n_def [symmetric]
    by simp
qed

lemma fl_between:
  assumes lo: "(real_of_int m - 1 / 2) * 2 powi k < x"
    and hi: "x < (real_of_int m + 1 / 2) * 2 powi k"
    and m: "2 ^ 52 < m" "m < 2 ^ 53" and k: "- 1074 \<le> k" "k \<le> 970"
  shows "fl x = Num (real_of_int m * 2 powi k)"
proof -
  define q :: real where "q = 2 powi k"
  have q: "0 < q" unfolding q_def by (rule zero_less_power_int) simp
  have m1: "(2::real) ^ 52 + 1 \<le> real_of_int m"
  proof -
    have "2 ^ 52 + 1 \<le> m" using m(1) by linarith
    then have "real_of_int (2 ^ 52 + 1) \<le> real_of_int m" by (simp only: of_int_le_iff)
    then show ?thesis by simp
  qed
  have m2: "real_of_int m \<le> 2 ^ 53 - 1"
  proof -
    have "m \<le> 2 ^ 53 - 1" using m(2) by linarith
    then have "real_of_int m \<le> real_of_int (2 ^ 53 - 1)" by (simp only: of_int_le_iff)
    then show ?thesis by simp
  qed
  have lo': "(real_of_int m - 1 / 2) * q < x" and hi': "x < (real_of_int m + 1 / 2) * q"
    using lo hi by (simp_all only: q_def)
  have "2 ^ 52 * q \<le> (real_of_int m - 1 / 2) * q" using m1 q by (intro mult_right_mono) simp_all
  then have xlo: "2 ^ 52 * q < x" using lo' by linarith
  have "(real_of_int m + 1 / 2) * q \<le> 2 ^ 53 * q" using m2 q by (intro mult_right_mono) simp_all
  then have xhi: "x < 2 ^ 53 * q" using hi' by linarith
  have x: "0 < x" using xlo q by (smt (verit) mult_pos_pos zero_less_power)
  then have nz: "x \<noteq> 0" by simp
  have p52: "(2::real) powi (k + 52) = 2 ^ 52 * q" unfolding q_def by (simp add: power_int_add)
  have p53: "(2::real) powi (k + 52 + 1) = 2 ^ 53 * q" unfolding q_def by (simp add: power_int_add)
  have "\<lfloor>log 2 \<bar>x\<bar>\<rfloor> = k + 52"
    using xlo xhi x p52 p53 by (intro exponent_eqI) simp_all
  then have j: "ulp_exponent x = k" using k unfolding ulp_exponent_def by linarith
  have "real_of_int m - 1 / 2 < x / q" and "x / q < real_of_int m + 1 / 2"
    using lo' hi' q by (simp_all add: pos_less_divide_eq pos_divide_less_eq)
  then have "\<bar>x / q - real_of_int m\<bar> < 1 / 2" by linarith
  then have r: "round_half_even (x / q) = m" by (rule round_half_even_near)
  have "real_of_int m * q \<le> (2 ^ 53 - 1) * q" using m2 q by (intro mult_right_mono) simp_all
  also have "\<dots> < 2 ^ 53 * q" using q by simp
  also have "\<dots> = 2 powi (k + 53)" unfolding q_def by (simp add: power_int_add)
  also have "\<dots> \<le> 2 powi 1024" using k by (intro power_int_increasing) simp_all
  finally have "real_of_int m * q < overflow_bound" by (simp add: overflow_bound_def)
  moreover have "0 \<le> real_of_int m * q" using m1 q by simp
  ultimately have "\<not> overflow_bound \<le> \<bar>real_of_int m * q\<bar>" by simp
  then show ?thesis
    unfolding fl_unfold [OF nz] j q_def [symmetric] r by simp
qed

lemma fl_cases: "fl x = PosInf \<or> fl x = NegInf \<or> (\<exists>y. fl x = Num y)"
  by (simp add: fl_def Let_def)

lemma fl_nonneg:
  assumes "0 \<le> x"
  shows "fl x = PosInf \<or> (\<exists>y. fl x = Num y \<and> 0 \<le> y)"
proof (cases "x = 0")
  case True
  then show ?thesis by simp
next
  case False
  have "0 \<le> x / 2 powi ulp_exponent x" using assms by simp
  then have "of_int 0 \<le> x / 2 powi ulp_exponent x" by simp
  then have "0 \<le> round_half_even (x / 2 powi ulp_exponent x)" by (rule round_half_even_ge)
  then have "0 \<le> real_of_int (round_half_even (x / 2 powi ulp_exponent x)) * 2 powi ulp_exponent x"
    by simp
  then show ?thesis using False assms unfolding fl_unfold [OF False] by simp
qed

lemma min_double_le_one: "min_double \<le> 1"
proof -
  have "min_double \<le> 2 powi 0" unfolding min_double_def by (rule power_int_increasing) simp_all
  then show ?thesis by simp
qed

lemma sqrt_ge_min_double:
  assumes "min_double \<le> y"
  shows "min_double \<le> sqrt y"
proof (cases "1 \<le> y")
  case True
  have "1 \<le> sqrt y" using True by simp
  then show ?thesis using min_double_le_one by linarith
next
  case False
  have "0 \<le> y" using assms min_double_pos by linarith
  then have "y * y \<le> y * 1" using False by (intro mult_left_mono) simp_all
  then have "y\<^sup>2 \<le> y" by (simp add: power2_eq_square)
  then have "y \<le> sqrt y" by (rule real_le_rsqrt)
  then show ?thesis using assms by linarith
qed

lemma normalize_score_clamp:
  "normalize_score sc alpha = clamp (js_div sc (js_sqrt (js_add (js_mul sc sc) alpha)))"
  by (simp add: normalize_score_def clamp_def Let_def)

lemma clamp_range:
  assumes "n \<noteq> NaN"
  shows "\<exists>y. clamp n = Num y \<and> - 1 \<le> y \<and> y \<le> 1"
  using assms by (cases n) (auto simp: clamp_def)

lemma clamp_Num: "clamp (Num y) = Num (max (- 1) (min 1 y))"
  by (simp add: clamp_def)

lemma denominator_cases:
  assumes "min_double \<le> alpha"
  shows "js_sqrt (js_add (js_mul (Num s) (Num s)) (Num alpha)) = PosInf \<or>
         (\<exists>d. js_sqrt (js_add (js_mul (Num s) (Num s)) (Num alpha)) = Num d \<and> min_double \<le> d)"
proof -
  have "fl (s * s) = PosInf \<or> (\<exists>p. fl (s * s) = Num p \<and> 0 \<le> p)"
    by (rule fl_nonneg) simp
  then show ?thesis
  proof
    assume "fl (s * s) = PosInf"
    then show ?thesis by simp
  next
    assume "\<exists>p. fl (s * s) = Num p \<and> 0 \<le> p"
    then obtain p where p: "fl (s * s) = Num p" "0 \<le> p" by blast
    have "min_double \<le> p + alpha" using p(2) assms by linarith
    then have "fl (p + alpha) = PosInf \<or> (\<exists>t. fl (p + alpha) = Num t \<and> min_double \<le> t)"
      by (rule fl_pos)
    then show ?thesis
    proof
      assume "fl (p + alpha) = PosInf"
      then show ?thesis using p by simp
    next
      assume "\<exists>t. fl (p + alpha) = Num t \<and> min_double \<le> t"
      then obtain t where t: "fl (p + alpha) = Num t" "min_double \<le> t" by blast
      have t0: "\<not> t < 0" using t(2) min_double_pos by linarith
      have "fl (sqrt t) = PosInf \<or> (\<exists>d. fl (sqrt t) = Num d \<and> min_double \<le> d)"
        using sqrt_ge_min_double [OF t(2)] by (rule fl_pos)
      then show ?thesis using p t t0 by simp
    qed
  qed
qed

lemma normalize_score_finite:
  assumes "min_double \<le> alpha"
  shows "\<exists>y. normalize_score (Num s) (Num alpha) = Num y \<and> - 1 \<le> y \<and> y \<le> 1"
proof -
  let ?d = "js_sqrt (js_add (js_mul (Num s) (Num s)) (Num alpha))"
  have "js_div (Num s) ?d \<noteq> NaN"
  proof -
    from denominator_cases [OF assms, of s] show ?thesis
    proof
      assume "?d = PosInf"
      then show ?thesis by simp
    next
      assume "\<exists>d. ?d = Num d \<and> min_double \<le> d"
      then obtain d where d: "?d = Num d" "min_double \<le> d" by blast
      have "d \<noteq> 0" using d(2) min_double_pos by linarith
      then show ?thesis using d(1) fl_cases [of "s / d"] by auto
    qed
  qed
  then show ?thesis unfolding normalize_score_clamp by (rule clamp_range)
qed

lemma normalize_score_zero:
  assumes "min_double \<le> alpha"
  shows "normalize_score (Num 0) (Num alpha) = Num 0"
proof -
  let ?d = "js_sqrt (js_add (js_mul (Num 0) (Num 0)) (Num alpha))"
  have "js_div (Num 0) ?d = Num 0"
  proof -
    from denominator_cases [OF assms, of 0] show ?thesis
    proof
      assume "?d = PosInf"
      then show ?thesis by simp
    next
      assume "\<exists>d. ?d = Num d \<and> min_double \<le> d"
      then obtain d where d: "?d = Num d" "min_double \<le> d" by blast
      have "d \<noteq> 0" using d(2) min_double_pos by linarith
      then show ?thesis using d(1) by simp
    qed
  qed
  then show ?thesis unfolding normalize_score_clamp by (simp add: clamp_def)
qed

lemma min_double_le_15: "min_double \<le> 15"
  using min_double_le_one by linarith

lemma normalize_default_zero: "normalize_default (Num 0) = Num 0"
  unfolding normalize_default_def using min_double_le_15 by (rule normalize_score_zero)

section \<open>The exact quotient and the rounding error of normalize\<close>

lemma sqrt_denominator_pos: "0 < alpha \<Longrightarrow> 0 < sqrt (s * s + alpha)"
  by (simp add: add_nonneg_pos)

lemma abs_less_sqrt: "0 < alpha \<Longrightarrow> \<bar>s\<bar> < sqrt (s * s + alpha)"
proof -
  assume a: "0 < alpha"
  have "s * s < s * s + alpha" using a by simp
  then have "sqrt (s * s) < sqrt (s * s + alpha)" by (rule real_sqrt_less_mono)
  then show ?thesis by (simp only: real_sqrt_abs2)
qed

lemma quotient_bounds:
  assumes "0 < alpha"
  shows "- 1 < s / sqrt (s * s + alpha)" and "s / sqrt (s * s + alpha) < 1"
proof -
  have d: "0 < sqrt (s * s + alpha)" using assms by (rule sqrt_denominator_pos)
  have l: "\<bar>s\<bar> < sqrt (s * s + alpha)" using assms by (rule abs_less_sqrt)
  show "- 1 < s / sqrt (s * s + alpha)" using d l by (simp add: pos_less_divide_eq)
  show "s / sqrt (s * s + alpha) < 1" using d l by (simp add: pos_divide_less_eq)
qed



lemma quotient_error:
  fixes u :: real
  assumes u: "0 < u" "u \<le> 1 / 16"
    and D: "0 < D"
    and r: "D * (1 - u)\<^sup>2 \<le> r" "r \<le> D * (1 + u)\<^sup>2"
    and n: "\<bar>n - s / r\<bar> \<le> \<bar>s / r\<bar> * u"
  shows "\<bar>n - s / D\<bar> \<le> \<bar>s / D\<bar> * (4 * u)"
proof -
  define c where "c = r / D"
  define q where "q = s / D"
  have lo: "(1 - u)\<^sup>2 \<le> c" using r(1) D by (simp add: c_def pos_le_divide_eq mult.commute)
  have hi: "c \<le> (1 + u)\<^sup>2" using r(2) D by (simp add: c_def pos_divide_le_eq mult.commute)
  have u1: "0 < 1 - u" using u by simp
  then have lo_pos: "0 < (1 - u)\<^sup>2" by simp
  then have c: "0 < c" using lo by linarith
  then have rpos: "0 < r" using D by (simp add: c_def zero_less_divide_iff)
  have sr: "s / r = q / c" using D rpos by (simp add: q_def c_def)
  have e1: "\<bar>n - q / c\<bar> \<le> \<bar>q\<bar> / c * u" using n c by (simp add: sr)
  have "q / c - q = q / c * (1 - c)" using c by (simp add: field_simps)
  then have e2: "\<bar>q / c - q\<bar> = \<bar>q\<bar> / c * \<bar>1 - c\<bar>" using c by (simp add: abs_mult)
  have uu: "0 \<le> u * u" by simp
  have "(1 - u)\<^sup>2 = 1 - 2 * u + u * u" and "(1 + u)\<^sup>2 = 1 + 2 * u + u * u"
    by (simp_all add: power2_eq_square algebra_simps)
  then have "1 - c \<le> 2 * u + u * u" and "c - 1 \<le> 2 * u + u * u"
    using lo hi uu by linarith+
  then have "1 - c \<le> 2 * u + u\<^sup>2" and "c - 1 \<le> 2 * u + u\<^sup>2"
    by (simp_all add: power2_eq_square)
  then have e3: "\<bar>1 - c\<bar> \<le> 2 * u + u\<^sup>2" by linarith
  have qc: "0 \<le> \<bar>q\<bar> / c" using c by simp
  have "\<bar>q\<bar> / c * \<bar>1 - c\<bar> \<le> \<bar>q\<bar> / c * (2 * u + u\<^sup>2)"
    using e3 qc by (rule mult_left_mono)
  moreover have "\<bar>n - q\<bar> \<le> \<bar>n - q / c\<bar> + \<bar>q / c - q\<bar>" by simp
  ultimately have "\<bar>n - q\<bar> \<le> \<bar>q\<bar> / c * u + \<bar>q\<bar> / c * (2 * u + u\<^sup>2)"
    using e1 unfolding e2 by (rule_tac order_trans [OF _ add_mono])
  then have e4: "\<bar>n - q\<bar> \<le> \<bar>q\<bar> / c * (3 * u + u\<^sup>2)" by (simp add: algebra_simps)
  have "0 < c * (1 - u)\<^sup>2" using c lo_pos by (rule mult_pos_pos)
  then have "\<bar>q\<bar> / c \<le> \<bar>q\<bar> / (1 - u)\<^sup>2" using lo by (intro divide_left_mono) simp_all
  moreover have "0 \<le> 3 * u + u\<^sup>2" using u by simp
  ultimately have "\<bar>q\<bar> / c * (3 * u + u\<^sup>2) \<le> \<bar>q\<bar> / (1 - u)\<^sup>2 * (3 * u + u\<^sup>2)"
    by (rule mult_right_mono)
  then have e5: "\<bar>n - q\<bar> \<le> \<bar>q\<bar> * ((3 * u + u\<^sup>2) / (1 - u)\<^sup>2)" using e4 by simp
  have "9 * u \<le> 1" using u by simp
  then have "9 * u * u \<le> 1 * u" using u by (intro mult_right_mono) simp_all
  then have f1: "9 * (u * u) \<le> u" by simp
  have f2: "0 \<le> 4 * (u * u * u)" using u by simp
  have "4 * u * (1 - u)\<^sup>2 - (3 * u + u\<^sup>2) = u - 9 * (u * u) + 4 * (u * u * u)"
    by (simp add: power2_eq_square algebra_simps)
  then have "3 * u + u\<^sup>2 \<le> 4 * u * (1 - u)\<^sup>2"
    using f1 f2 by linarith
  then have "(3 * u + u\<^sup>2) / (1 - u)\<^sup>2 \<le> 4 * u" using lo_pos by (simp add: pos_divide_le_eq)
  then have "\<bar>q\<bar> * ((3 * u + u\<^sup>2) / (1 - u)\<^sup>2) \<le> \<bar>q\<bar> * (4 * u)"
    by (intro mult_left_mono) simp_all
  then show ?thesis using e5 unfolding q_def by linarith
qed

lemma rel_error_bounds:
  fixes x y :: real
  assumes "\<bar>y - x\<bar> \<le> \<bar>x\<bar> / 2 ^ 53" and "0 \<le> x"
  shows "x * (1 - 1 / 2 ^ 53) \<le> y" and "y \<le> x * (1 + 1 / 2 ^ 53)"
proof -
  define d where "d = x / 2 ^ 53"
  have a: "x * (1 - 1 / 2 ^ 53) = x - d" and b: "x * (1 + 1 / 2 ^ 53) = x + d"
    unfolding d_def by (simp_all add: right_diff_distrib distrib_left)
  have "\<bar>y - x\<bar> \<le> d" using assms unfolding d_def by simp
  then have "x - d \<le> y" and "y \<le> x + d" by linarith+
  then show "x * (1 - 1 / 2 ^ 53) \<le> y" and "y \<le> x * (1 + 1 / 2 ^ 53)"
    unfolding a b .
qed

lemma powi_range_lo: "k \<le> 0 \<Longrightarrow> - 1022 \<le> k \<Longrightarrow> (2::real) powi (- 1022) \<le> 2 powi k"
  by (rule power_int_increasing) simp_all

lemma pow_range_hi: "n \<le> 1023 \<Longrightarrow> (2::real) ^ n \<le> 2 ^ 1023"
  by (rule power_increasing) simp_all

lemma normalize_score_close:
  assumes s: "2 powi (- 500) \<le> \<bar>s\<bar>" "\<bar>s\<bar> \<le> 2 ^ 500"
    and a: "2 powi (- 1000) \<le> alpha" "alpha \<le> 2 ^ 1000"
  shows "\<exists>n. normalize_score (Num s) (Num alpha) = Num n \<and>
           \<bar>n - s / sqrt (s * s + alpha)\<bar> \<le> \<bar>s / sqrt (s * s + alpha)\<bar> / 2 ^ 51"
proof -
  define u :: real where "u = 1 / 2 ^ 53"
  define S where "S = s * s + alpha"
  define D where "D = sqrt S"
  have u: "0 < u" "u \<le> 1 / 16" "u \<le> 1" unfolding u_def by simp_all
  have u1: "0 < 1 - u" "1 / 2 \<le> 1 - u" "1 + u \<le> 2" unfolding u_def by simp_all
  have l500: "(0::real) < 2 powi (- 500)" and l1000: "(0::real) < 2 powi (- 1000)"
    by (rule zero_less_power_int, simp)+
  have apos: "0 < alpha" using a(1) l1000 by linarith
  \<comment> \<open>the square\<close>
  have ss: "s * s = \<bar>s\<bar> * \<bar>s\<bar>" by simp
  have "(2::real) powi (- 500) * 2 powi (- 500) \<le> \<bar>s\<bar> * \<bar>s\<bar>"
    using s(1) l500 by (intro mult_mono) simp_all
  moreover have "(2::real) powi (- 500) * 2 powi (- 500) = 2 powi (- 1000)"
    by (simp add: power_int_add [symmetric])
  ultimately have sq_lo: "2 powi (- 1000) \<le> s * s" unfolding ss by simp
  have "\<bar>s\<bar> * \<bar>s\<bar> \<le> 2 ^ 500 * 2 ^ 500" using s(2) by (intro mult_mono) simp_all
  moreover have "(2::real) ^ 500 * 2 ^ 500 = 2 ^ 1000" by (simp add: power_add [symmetric])
  ultimately have sq_hi: "s * s \<le> 2 ^ 1000" unfolding ss by simp
  have sq_pos: "0 < s * s" using sq_lo l1000 by linarith
  have "2 powi (- 1022) \<le> \<bar>s * s\<bar>"
    using sq_lo powi_range_lo [of "- 1000"] sq_pos by simp
  moreover have "\<bar>s * s\<bar> \<le> 2 ^ 1023" using sq_hi pow_range_hi [of 1000] sq_pos by simp
  ultimately obtain p where p: "fl (s * s) = Num p" and pe: "\<bar>p - s * s\<bar> \<le> \<bar>s * s\<bar> / 2 ^ 53"
    using fl_rel by blast
  have pe': "\<bar>p - s * s\<bar> \<le> s * s * u" using pe sq_pos by (simp add: u_def)
  have p_lo: "s * s * (1 - u) \<le> p" and p_hi: "p \<le> s * s * (1 + u)"
    using rel_error_bounds [OF pe] sq_pos by (simp_all add: u_def)
  have p0: "0 \<le> p" using p_lo sq_pos u1(1) by (smt (verit) mult_nonneg_nonneg)
  \<comment> \<open>the sum\<close>
  have Spos: "0 < S" using sq_pos apos by (simp add: S_def)
  have "s * s * u \<le> S * u" using u(1) apos by (simp add: S_def)
  then have x2e: "\<bar>(p + alpha) - S\<bar> \<le> S * u" using pe' by (simp add: S_def)
  have x2_lo: "S * (1 - u) \<le> p + alpha" and x2_hi: "p + alpha \<le> S * (1 + u)"
    using x2e by (simp_all add: algebra_simps abs_le_iff)
  have x2pos: "0 < p + alpha" using p0 apos by linarith
  have "2 powi (- 1000) \<le> p + alpha" using a(1) p0 by linarith
  then have r2lo: "2 powi (- 1022) \<le> \<bar>p + alpha\<bar>"
    using powi_range_lo [of "- 1000"] x2pos by simp
  have "s * s * (1 + u) \<le> 2 ^ 1000 * 2" using sq_hi u1(3) sq_pos u(1) by (intro mult_mono) simp_all
  then have "p + alpha \<le> 2 ^ 1000 * 2 + 2 ^ 1000" using p_hi a(2) by linarith
  also have "\<dots> \<le> (2::real) ^ 1002" by simp
  finally have x2_hi': "p + alpha \<le> 2 ^ 1002" .
  then have r2hi: "\<bar>p + alpha\<bar> \<le> 2 ^ 1023" using pow_range_hi [of 1002] x2pos by simp
  obtain t where t: "fl (p + alpha) = Num t" and te: "\<bar>t - (p + alpha)\<bar> \<le> \<bar>p + alpha\<bar> / 2 ^ 53"
    using fl_rel [OF r2lo r2hi] by blast
  have t_lo0: "(p + alpha) * (1 - u) \<le> t" and t_hi0: "t \<le> (p + alpha) * (1 + u)"
    using rel_error_bounds [OF te] x2pos by (simp_all add: u_def)
  have "S * (1 - u) * (1 - u) \<le> (p + alpha) * (1 - u)"
    using x2_lo u1(1) by (intro mult_right_mono) simp_all
  then have t_lo: "S * (1 - u)\<^sup>2 \<le> t" using t_lo0 by (simp add: power2_eq_square mult.assoc)
  have "(p + alpha) * (1 + u) \<le> S * (1 + u) * (1 + u)"
    using x2_hi u(1) by (intro mult_right_mono) simp_all
  then have t_hi: "t \<le> S * (1 + u)\<^sup>2" using t_hi0 by (simp add: power2_eq_square mult.assoc)
  have tpos: "0 < t" using t_lo Spos u1(1) by (smt (verit) mult_pos_pos zero_less_power)
  \<comment> \<open>the square root\<close>
  have Dpos: "0 < D" using Spos by (simp add: D_def)
  have "sqrt (S * (1 - u)\<^sup>2) \<le> sqrt t" using t_lo by simp
  then have st_lo: "D * (1 - u) \<le> sqrt t" using u1(1) by (simp add: real_sqrt_mult D_def)
  have "sqrt t \<le> sqrt (S * (1 + u)\<^sup>2)" using t_hi by simp
  then have st_hi: "sqrt t \<le> D * (1 + u)" using u(1) by (simp add: real_sqrt_mult D_def)
  have "(2 powi (- 500))\<^sup>2 = (2::real) powi (- 1000)"
    by (simp add: power2_eq_square power_int_add [symmetric])
  moreover have "2 powi (- 1000) \<le> S" using sq_pos a(1) by (simp add: S_def)
  ultimately have "(2 powi (- 500))\<^sup>2 \<le> S" by simp
  then have D_lo: "2 powi (- 500) \<le> D" unfolding D_def by (rule real_le_rsqrt)
  have "S \<le> 2 ^ 1000 + 2 ^ 1000" using sq_hi a(2) by (simp add: S_def)
  also have "\<dots> \<le> ((2::real) ^ 501)\<^sup>2" by simp
  finally have D_hi: "D \<le> 2 ^ 501" unfolding D_def using Spos by (intro real_le_lsqrt) simp_all
  have "D * (1 / 2) \<le> D * (1 - u)" using Dpos u1(2) by (intro mult_left_mono) simp_all
  then have "2 powi (- 500) * (1 / 2) \<le> sqrt t" using st_lo D_lo by linarith
  moreover have "(2::real) powi (- 500) * (1 / 2) = 2 powi (- 501)"
    by (simp add: power_int_minus field_simps)
  ultimately have st_lo': "2 powi (- 501) \<le> sqrt t" by simp
  have "D * (1 + u) \<le> 2 ^ 501 * 2" using D_hi u1(3) Dpos u(1) by (intro mult_mono) simp_all
  then have st_hi': "sqrt t \<le> 2 ^ 502" using st_hi by simp
  have stpos: "0 < sqrt t" using tpos by simp
  have r3lo: "2 powi (- 1022) \<le> \<bar>sqrt t\<bar>" using st_lo' powi_range_lo [of "- 501"] stpos by simp
  have r3hi: "\<bar>sqrt t\<bar> \<le> 2 ^ 1023" using st_hi' pow_range_hi [of 502] stpos by simp
  obtain r where r: "fl (sqrt t) = Num r" and re: "\<bar>r - sqrt t\<bar> \<le> \<bar>sqrt t\<bar> / 2 ^ 53"
    using fl_rel [OF r3lo r3hi] by blast
  have r_lo0: "sqrt t * (1 - u) \<le> r" and r_hi0: "r \<le> sqrt t * (1 + u)"
    using rel_error_bounds [OF re] stpos by (simp_all add: u_def)
  have "D * (1 - u) * (1 - u) \<le> sqrt t * (1 - u)"
    using st_lo u1(1) by (intro mult_right_mono) simp_all
  then have r_lo: "D * (1 - u)\<^sup>2 \<le> r" using r_lo0 by (simp add: power2_eq_square mult.assoc)
  have "sqrt t * (1 + u) \<le> D * (1 + u) * (1 + u)"
    using st_hi u(1) by (intro mult_right_mono) simp_all
  then have r_hi: "r \<le> D * (1 + u)\<^sup>2" using r_hi0 by (simp add: power2_eq_square mult.assoc)
  have "sqrt t * (1 / 2) \<le> sqrt t * (1 - u)" using stpos u1(2) by (intro mult_left_mono) simp_all
  then have "2 powi (- 501) * (1 / 2) \<le> r" using r_lo0 st_lo' by linarith
  moreover have "(2::real) powi (- 501) * (1 / 2) = 2 powi (- 502)"
    by (simp add: power_int_minus field_simps)
  ultimately have r_lo': "2 powi (- 502) \<le> r" by simp
  have "sqrt t * (1 + u) \<le> 2 ^ 502 * 2" using st_hi' u1(3) stpos u(1) by (intro mult_mono) simp_all
  then have r_hi': "r \<le> 2 ^ 503" using r_hi0 by simp
  have l502: "(0::real) < 2 powi (- 502)" by (rule zero_less_power_int) simp
  then have rpos: "0 < r" using r_lo' by linarith
  \<comment> \<open>the quotient\<close>
  have "2 powi (- 500) / 2 ^ 503 \<le> \<bar>s\<bar> / r"
    using s(1) r_hi' rpos l500 by (intro frac_le) simp_all
  moreover have "(2::real) powi (- 500) / 2 ^ 503 = 2 powi (- 1003)"
    by (simp add: power_int_minus field_simps power_add [symmetric])
  ultimately have "2 powi (- 1003) \<le> \<bar>s\<bar> / r" by simp
  then have r4lo: "2 powi (- 1022) \<le> \<bar>s / r\<bar>"
    using powi_range_lo [of "- 1003"] rpos by simp
  have "\<bar>s\<bar> / r \<le> 2 ^ 500 / 2 powi (- 502)"
    using s(2) r_lo' l502 by (intro frac_le) simp_all
  moreover have "(2::real) ^ 500 / 2 powi (- 502) = 2 ^ 1002"
    by (simp add: power_int_minus field_simps power_add [symmetric])
  ultimately have "\<bar>s\<bar> / r \<le> 2 ^ 1002" by simp
  then have r4hi: "\<bar>s / r\<bar> \<le> 2 ^ 1023" using pow_range_hi [of 1002] rpos by simp
  obtain n where n: "fl (s / r) = Num n" and ne: "\<bar>n - s / r\<bar> \<le> \<bar>s / r\<bar> / 2 ^ 53"
    using fl_rel [OF r4lo r4hi] by blast
  have ne': "\<bar>n - s / r\<bar> \<le> \<bar>s / r\<bar> * u" using ne by (simp add: u_def)
  have close: "\<bar>n - s / D\<bar> \<le> \<bar>s / D\<bar> * (4 * u)"
    using u(1) u(2) Dpos r_lo r_hi ne' by (rule quotient_error)
  \<comment> \<open>the clamp\<close>
  have q: "- 1 < s / D" "s / D < 1"
    using quotient_bounds [OF apos, of s] by (simp_all add: D_def S_def)
  have tn: "\<not> t < 0" using tpos by simp
  have rn: "r \<noteq> 0" using rpos by simp
  have val: "normalize_score (Num s) (Num alpha) = Num (max (- 1) (min 1 n))"
    unfolding normalize_score_clamp using p t r n tn rn by (simp add: clamp_Num)
  have "\<bar>max (- 1) (min 1 n) - s / D\<bar> \<le> \<bar>n - s / D\<bar>" using q by linarith
  then have "\<bar>max (- 1) (min 1 n) - s / D\<bar> \<le> \<bar>s / D\<bar> * (4 * u)" using close by linarith
  moreover have "\<bar>s / D\<bar> * (4 * u) = \<bar>s / D\<bar> / 2 ^ 51" by (simp add: u_def)
  ultimately have "\<bar>max (- 1) (min 1 n) - s / D\<bar> \<le> \<bar>s / D\<bar> / 2 ^ 51" by simp
  then show ?thesis using val unfolding D_def S_def by blast
qed

section \<open>Evaluating normalize on doubles\<close>

lemma powi_neg_nat: "(2::real) powi (- int j) = 1 / 2 ^ j"
  by (simp add: power_int_minus field_simps)

lemma fl_exact_frac:
  assumes m: "\<bar>m\<bar> < 2 ^ 53" and j: "j \<le> 1074"
  shows "fl (real_of_int m / 2 ^ j) = Num (real_of_int m / 2 ^ j)"
proof (rule fl_exact [where m = m and k = "- int j"])
  show "real_of_int m / 2 ^ j = real_of_int m * 2 powi (- int j)" by (simp add: powi_neg_nat)
  show "- 1074 \<le> - int j" using j by simp
  have "\<bar>real_of_int m\<bar> < 2 ^ 53"
    using m by (metis of_int_abs of_int_less_numeral_power_cancel_iff)
  then have "\<bar>real_of_int m\<bar> / 2 ^ j < 2 ^ 53 / 2 ^ j" by (intro divide_strict_right_mono) simp_all
  moreover have "(2::real) powi (- int j + 53) = 2 powi (- int j) * 2 powi 53"
    by (rule power_int_add) simp
  then have "(2::real) ^ 53 / 2 ^ j = 2 powi (- int j + 53)"
    by (simp add: powi_neg_nat)
  ultimately show lt: "\<bar>real_of_int m / 2 ^ j\<bar> < 2 powi (- int j + 53)" by simp
  have "(2::real) powi (- int j + 53) \<le> 2 powi 1024" by (intro power_int_increasing) simp_all
  then show "\<bar>real_of_int m / 2 ^ j\<bar> < overflow_bound" using lt by (simp add: overflow_bound_def)
qed

lemma fl_of_int:
  assumes "\<bar>m\<bar> < 2 ^ 53"
  shows "fl (real_of_int m) = Num (real_of_int m)"
  using fl_exact_frac [OF assms, of 0] by simp

lemma fl_between_frac:
  assumes "(real_of_int m - 1 / 2) / 2 ^ j < x" and "x < (real_of_int m + 1 / 2) / 2 ^ j"
    and "2 ^ 52 < m" and "m < 2 ^ 53" and "j \<le> 1074"
  shows "fl x = Num (real_of_int m / 2 ^ j)"
proof -
  have "fl x = Num (real_of_int m * 2 powi (- int j))"
    using assms by (intro fl_between) (simp_all add: powi_neg_nat)
  then show ?thesis by (simp add: powi_neg_nat)
qed

lemma fl_sqrt_between_frac:
  assumes lo: "((real_of_int m - 1 / 2) / 2 ^ j)\<^sup>2 < t" and hi: "t < ((real_of_int m + 1 / 2) / 2 ^ j)\<^sup>2"
    and m: "2 ^ 52 < m" "m < 2 ^ 53" and j: "j \<le> 1074"
  shows "fl (sqrt t) = Num (real_of_int m / 2 ^ j)"
proof (rule fl_between_frac [OF _ _ m j])
  show "(real_of_int m - 1 / 2) / 2 ^ j < sqrt t" using lo by (rule real_less_rsqrt)
  have "0 < m" using m(1) by (smt (verit) zero_less_power)
  then have "0 \<le> (real_of_int m + 1 / 2) / 2 ^ j" by simp
  then show "sqrt t < (real_of_int m + 1 / 2) / 2 ^ j" using hi by (rule real_less_lsqrt)
qed


lemma normalize_overflow: "normalize_score (Num (2 ^ 1000)) (Num 15) = Num 0"
proof -
  have "overflow_bound \<le> 2 ^ 1000 * 2 ^ 1000"
    unfolding overflow_bound_def power_add [symmetric] by (rule power_increasing) simp_all
  then have "fl (2 ^ 1000 * 2 ^ 1000) = PosInf" by (rule fl_overflow)
  then show ?thesis unfolding normalize_score_clamp by (simp add: clamp_Num)
qed

lemma normalize_a:
  "normalize_score (Num (25 / 8)) (Num 15) = Num (5656074817410445 / 2 ^ 53)"
proof -
  have p: "fl (25 / 8 * (25 / 8)) = Num (625 / 64)" using fl_exact_frac [of 625 6] by simp
  have t: "fl (625 / 64 + 15) = Num (1585 / 64)" using fl_exact_frac [of 1585 6] by simp
  have r: "fl (sqrt (1585 / 64)) = Num (5603049115997221 / 2 ^ 50)"
    using fl_sqrt_between_frac [of 5603049115997221 50 "1585 / 64"] by (simp add: power2_eq_square)
  have n: "fl (25 / 8 / (5603049115997221 / 2 ^ 50)) = Num (5656074817410445 / 2 ^ 53)"
    using fl_between_frac [of 5656074817410445 53 "25 / 8 / (5603049115997221 / 2 ^ 50)"] by simp
  show ?thesis unfolding normalize_score_clamp using p t r n by (simp add: clamp_Num)
qed


section \<open>The scan over the tokens\<close>

lemma stem_guard_false: "js_less (ToNumber (number_property n 0)) (Num 2) = False"
  by (simp add: ToNumber_def number_property_def)

lemma scan_token_negator_token:
  "lc t \<in> set (negations this) \<Longrightarrow>
   scan_token lc this st t = Inr (st\<lparr>negator := - 1, nrHits := nrHits st + 1\<rparr>)"
  by (simp add: scan_token_def)

lemma scan_token_punctuation_token:
  "lc t \<notin> set (negations this) \<Longrightarrow> lc t \<in> set (negationPunctuations this) \<Longrightarrow>
   scan_token lc this st t = Inr (st\<lparr>negator := 1\<rparr>)"
  by (simp add: scan_token_def)

lemma scan_token_returns:
  "vocabulary this \<noteq> None \<Longrightarrow> \<exists>st'. scan_token lc this st t = Inr st'"
  by (auto simp: scan_token_def Let_def stem_guard_false split: option.splits)

lemma scan_token_other_negator:
  "lc t \<notin> set (negations this) \<Longrightarrow> lc t \<notin> set (negationPunctuations this) \<Longrightarrow>
   scan_token lc this st t = Inr st' \<Longrightarrow> negator st' = negator st"
  by (auto simp: scan_token_def Let_def stem_guard_false split: option.splits)

lemma scan_token_hits:
  "scan_token lc this st t = Inr st' \<Longrightarrow> nrHits st' \<le> Suc (nrHits st)"
  by (auto simp: scan_token_def Let_def stem_guard_false split: option.splits if_splits)

lemma scan_token_sign:
  "scan_token lc this st t = Inr st' \<Longrightarrow> negator st = 1 \<or> negator st = - 1 \<Longrightarrow>
   negator st' = 1 \<or> negator st' = - 1"
  by (auto simp: scan_token_def Let_def stem_guard_false split: option.splits if_splits)

lemma forEach_scan_returns:
  "vocabulary this \<noteq> None \<Longrightarrow> \<exists>st'. forEach (scan_token lc this) st ws = Inr st'"
proof (induction ws arbitrary: st)
  case Nil
  show ?case by simp
next
  case (Cons w ws)
  obtain st1 where "scan_token lc this st w = Inr st1"
    using scan_token_returns [OF Cons.prems] by blast
  then show ?case using Cons.IH [OF Cons.prems, of st1] by simp
qed

lemma forEach_scan_hits:
  "forEach (scan_token lc this) st ws = Inr st' \<Longrightarrow> nrHits st' \<le> nrHits st + length ws"
proof (induction ws arbitrary: st)
  case Nil
  then show ?case by simp
next
  case (Cons w ws)
  then obtain st1 where s1: "scan_token lc this st w = Inr st1"
    and r: "forEach (scan_token lc this) st1 ws = Inr st'"
    by (auto split: sum.splits)
  have "nrHits st' \<le> nrHits st1 + length ws" using Cons.IH [OF r] .
  moreover have "nrHits st1 \<le> Suc (nrHits st)" using s1 by (rule scan_token_hits)
  ultimately show ?case by simp
qed

lemma forEach_scan_sign:
  "forEach (scan_token lc this) st ws = Inr st' \<Longrightarrow> negator st = 1 \<or> negator st = - 1 \<Longrightarrow>
   negator st' = 1 \<or> negator st' = - 1"
proof (induction ws arbitrary: st)
  case Nil
  then show ?case by simp
next
  case (Cons w ws)
  then obtain st1 where s1: "scan_token lc this st w = Inr st1"
    and r: "forEach (scan_token lc this) st1 ws = Inr st'"
    by (auto split: sum.splits)
  have "negator st1 = 1 \<or> negator st1 = - 1" using s1 Cons.prems(2) by (rule scan_token_sign)
  then show ?case using Cons.IH [OF r] by simp
qed

lemma forEach_append:
  "forEach f st (xs @ ys) = (case forEach f st xs of Inl e \<Rightarrow> Inl e | Inr st' \<Rightarrow> forEach f st' ys)"
  by (induction xs arbitrary: st) (auto split: sum.splits)

lemma forEach_negators:
  "ns \<noteq> [] \<Longrightarrow> \<forall>n \<in> set ns. lc n \<in> set (negations this) \<Longrightarrow>
   \<exists>st'. forEach (scan_token lc this) st ns = Inr st' \<and> negator st' = - 1
        \<and> nrHits st' = nrHits st + length ns \<and> score st' = score st \<and> wordScores st' = wordScores st"
proof (induction ns arbitrary: st)
  case Nil
  then show ?case by simp
next
  case (Cons n ns)
  have n: "scan_token lc this st n = Inr (st\<lparr>negator := - 1, nrHits := nrHits st + 1\<rparr>)"
    using Cons.prems(2) by (simp add: scan_token_negator_token)
  show ?case
  proof (cases "ns = []")
    case True
    then show ?thesis using n by simp
  next
    case False
    then show ?thesis using n Cons.IH [OF False, of "st\<lparr>negator := - 1, nrHits := nrHits st + 1\<rparr>"] Cons.prems(2)
      by auto
  qed
qed

lemma forEach_other_negator:
  "\<forall>w \<in> set ws. lc w \<notin> set (negations this) \<and> lc w \<notin> set (negationPunctuations this) \<Longrightarrow>
   forEach (scan_token lc this) st ws = Inr st' \<Longrightarrow> negator st' = negator st"
proof (induction ws arbitrary: st)
  case Nil
  then show ?case by simp
next
  case (Cons w ws)
  then obtain st1 where s1: "scan_token lc this st w = Inr st1"
    and r: "forEach (scan_token lc this) st1 ws = Inr st'"
    by (auto split: sum.splits)
  have "negator st1 = negator st" using s1 Cons.prems(1) by (auto intro: scan_token_other_negator)
  moreover have "negator st' = negator st1" using Cons.IH [OF _ r] Cons.prems(1) by simp
  ultimately show ?case by simp
qed


lemma scan_token_stemmer_branch:
  assumes "lc t \<notin> set (negations this)" and "lc t \<notin> set (negationPunctuations this)"
    and "vocabulary this = Some vocab" and "obj_get vocab (lc t) = None"
    and "stemmer this = Some stem"
  shows "scan_token lc this st t =
     (case obj_get vocab (property_key (char_at0 t)) of
        None \<Rightarrow> Inr st
      | Some w0 \<Rightarrow>
          Inr (st\<lparr>score := js_add (score st) (js_mul (Num (negator st)) (ToNumber (Some w0))),
                 nrHits := nrHits st + 1,
                 wordScores := wordScores st @ [\<lparr>ws_word = char_at0 t, ws_score = NaN\<rparr>]\<rparr>))"
proof -
  have "ToNumber None = NaN" by (simp add: ToNumber_def)
  then show ?thesis
    using assms
    by (simp add: scan_token_def Let_def stem_guard_false split: option.splits)
qed

lemma getSentiment_ignores_vocabularyStem:
  "fst (getSentiment lc (this\<lparr>vocabularyStem := v\<rparr>) u) = fst (getSentiment lc this u)"
proof -
  have "scan_token lc (this\<lparr>vocabularyStem := v\<rparr>) = scan_token lc this"
    by (rule ext, rule ext) (simp add: scan_token_def Let_def stem_guard_false split: option.splits)
  moreover have "words_of (this\<lparr>vocabularyStem := v\<rparr>) u = words_of this u"
    by (cases u) (simp_all add: words_of_def)
  ultimately show ?thesis by (simp add: getSentiment_def Let_def split: sum.splits)
qed

section \<open>Merging the override dictionary and deriving the stemmed lexicon\<close>

lemma obj_own_eq: "obj_own obj = map_of obj"
  by (rule ext) (simp add: obj_own_def)

lemma obj_own_insert_index:
  "obj_own obj k = None \<Longrightarrow> obj_own (insert_index n k v obj) = (obj_own obj)(k \<mapsto> v)"
proof (induction obj)
  case Nil
  show ?case by (simp add: obj_own_eq)
next
  case (Cons p ps)
  from Cons.prems have pk: "fst p \<noteq> k" and ps: "obj_own ps k = None"
    by (cases p; auto simp: obj_own_def split: if_splits)+
  have ih: "map_of (insert_index n k v ps) = (map_of ps)(k \<mapsto> v)"
    using Cons.IH [OF ps] unfolding obj_own_eq .
  show ?case
    using pk ih by (cases p) (auto simp: obj_own_eq fun_eq_iff split: option.splits)
qed

lemma obj_own_obj_set:
  "obj_own (obj_set obj k v) =
     (if obj_own obj k = None \<and> k = ''__proto__'' then obj_own obj else (obj_own obj)(k \<mapsto> v))"
proof (cases "obj_own obj k")
  case None
  have "map_of (obj @ [(k, v)]) = (map_of obj)(k \<mapsto> v)"
    using None by (auto simp: obj_own_eq fun_eq_iff map_add_def split: option.splits)
  then show ?thesis
    using None obj_own_insert_index [OF None]
    by (auto simp: obj_set_def obj_own_eq split: option.splits)
next
  case (Some w)
  then show ?thesis by (simp add: obj_set_def obj_own_eq update_conv')
qed

lemma forEach_set_word:
  "vocabulary a = Some v \<Longrightarrow> distinct (map fst es) \<Longrightarrow>
   forEach set_word a es =
     Inr (a\<lparr>vocabulary := Some (foldl (\<lambda>obj e. obj_set obj (fst e) (snd e)) v es)\<rparr>) \<and>
   (\<forall>k. obj_own (foldl (\<lambda>obj e. obj_set obj (fst e) (snd e)) v es) k =
        (case map_of es k of
           None \<Rightarrow> obj_own v k
         | Some x \<Rightarrow> if k = ''__proto__'' \<and> obj_own v k = None then None else Some x))"
proof (induction es arbitrary: a v)
  case Nil
  then show ?case by simp
next
  case (Cons e es)
  obtain key w where e: "e = (key, w)" by (cases e)
  let ?v1 = "obj_set v key w"
  let ?a1 = "a\<lparr>vocabulary := Some ?v1\<rparr>"
  have s: "set_word a e = Inr ?a1" using Cons.prems(1) e by (simp add: set_word_def)
  have d: "distinct (map fst es)" and fresh: "key \<notin> fst ` set es" using Cons.prems(2) e by auto
  have none: "map_of es key = None" using fresh by (simp add: map_of_eq_None_iff)
  have "vocabulary ?a1 = Some ?v1" by simp
  from Cons.IH [OF this d]
  have r: "forEach set_word ?a1 es =
        Inr (?a1\<lparr>vocabulary := Some (foldl (\<lambda>obj e. obj_set obj (fst e) (snd e)) ?v1 es)\<rparr>)"
    and l: "\<And>k. obj_own (foldl (\<lambda>obj e. obj_set obj (fst e) (snd e)) ?v1 es) k =
        (case map_of es k of
           None \<Rightarrow> obj_own ?v1 k
         | Some x \<Rightarrow> if k = ''__proto__'' \<and> obj_own ?v1 k = None then None else Some x)"
    by blast+
  have 1: "forEach set_word a (e # es) =
      Inr (a\<lparr>vocabulary := Some (foldl (\<lambda>obj e. obj_set obj (fst e) (snd e)) v (e # es))\<rparr>)"
    using s r e by simp
  have 2: "obj_own (foldl (\<lambda>obj e. obj_set obj (fst e) (snd e)) v (e # es)) k =
        (case map_of (e # es) k of
           None \<Rightarrow> obj_own v k
         | Some x \<Rightarrow> if k = ''__proto__'' \<and> obj_own v k = None then None else Some x)" for k
    using l [of k] none e by (auto simp: obj_own_obj_set split: option.splits)
  show ?case using 1 2 by blast
qed

lemma obj_own_entries: "map_of (obj_entries obj) = obj_own obj"
  by (simp add: obj_entries_def obj_own_eq map_of_clearjunk)

lemma addVocabulary_merge:
  assumes "dict this = Some d" and "vocabulary this = Some v"
  shows "addVocabulary this = Inr (this\<lparr>vocabulary := Some (merge_override v d)\<rparr>)"
    and "obj_own (merge_override v d) k =
           (case obj_own d k of
              None \<Rightarrow> obj_own v k
            | Some x \<Rightarrow> if k = ''__proto__'' \<and> obj_own v k = None then None else Some x)"
proof -
  have dist: "distinct (map fst (obj_entries d))" by (simp add: obj_entries_def distinct_clearjunk)
  note f = forEach_set_word [OF assms(2) dist]
  show "addVocabulary this = Inr (this\<lparr>vocabulary := Some (merge_override v d)\<rparr>)"
    using f assms(1) by (simp add: addVocabulary_def merge_override_def)
  show "obj_own (merge_override v d) k =
           (case obj_own d k of
              None \<Rightarrow> obj_own v k
            | Some x \<Rightarrow> if k = ''__proto__'' \<and> obj_own v k = None then None else Some x)"
    using f by (simp add: merge_override_def obj_own_entries)
qed

lemma stem_word_own:
  "obj_own (stem_word stem vs e) s =
     (if stem (fst e) = [s] \<and> \<not> (s = ''__proto__'' \<and> obj_own vs s = None)
      then Some (snd e) else obj_own vs s)"
  by (cases e) (auto simp: stem_word_def obj_own_obj_set split: list.splits)

lemma foldl_stem_word_own:
  assumes "obj_own vs ''__proto__'' = None"
  shows "obj_own (foldl (stem_word stem) vs es) s =
     (if s = ''__proto__'' then None
      else if stem_writers stem s es = [] then obj_own vs s
      else Some (snd (last (stem_writers stem s es))))"
  using assms
proof (induction es arbitrary: vs)
  case Nil
  then show ?case by (simp add: stem_writers_def)
next
  case (Cons e es)
  have inv: "obj_own (stem_word stem vs e) ''__proto__'' = None"
    using Cons.prems by (simp add: stem_word_own)
  show ?case
    using Cons.IH [OF inv] Cons.prems
    by (auto simp: stem_word_own stem_writers_def)
qed

lemma load_lexicon_override:
  assumes rd: "readVocabulary files (vocabularyFileName this) = Some base"
    and d: "dict this = Some d"
  shows "load_lexicon files (this, loadedFiles) =
        Inr (this\<lparr>vocabulary := Some (merge_override base d),
                  vocabularyStem :=
                    Some (case stemmer this of
                            None \<Rightarrow> []
                          | Some stem \<Rightarrow>
                              foldl (stem_word stem) [] (obj_entries (merge_override base d)))\<rparr>,
             insert (vocabularyFileName this) loadedFiles)"
proof -
  let ?this2 = "this\<lparr>vocabulary := Some base\<rparr>"
  have "dict ?this2 = Some d" and "vocabulary ?this2 = Some base" using d by simp_all
  from addVocabulary_merge(1) [OF this]
  have a: "addVocabulary ?this2 = Inr (?this2\<lparr>vocabulary := Some (merge_override base d)\<rparr>)" .
  show ?thesis
    using rd d a by (simp add: load_lexicon_def derive_stems_def split: option.splits)
qed

lemma loadVocabulary_missing_lexicon:
  assumes "readVocabulary files (vocabulary_file (settings this)) = None"
  shows "\<exists>this'. loadVocabulary files (this, loadedFiles) = Inr (this', loadedFiles) \<and>
           vocabulary this' = None"
  using assms by (simp add: loadVocabulary_def load_lexicon_def)

section \<open>Evaluating the examples\<close>

lemmas ex_scan_simps =
  ex_analyzer_def ex_settings_def ex_stem_def toLowerCase_ascii_def scan_init_def

lemmas ex_run_simps =
  getSentiment_def words_of_def scan_token_def obj_get_def obj_own_def object_prototype_keys_def
  char_at0_def property_key_def stem_guard_false ex_scan_simps

lemmas ex_load_simps =
  loadVocabulary_def load_lexicon_def derive_stems_def addVocabulary_def set_word_def stem_word_def
  obj_entries_def obj_set_def obj_own_def array_index_def digit_value_def
  vocabulary_file_def negation_file_def negationPunctuation_file_def ex_settings_def

text \<open>
  A token that names a member of \<^verbatim>\<open>Object.prototype\<close> is a hit whose weight is no
  number (lemma \<open>getSentiment_inherited_member\<close>), and a sum of weights can overflow
  (lemma \<open>getSentiment_overflow\<close>): in both runs the score is no finite number.
\<close>

lemma getSentiment_inherited_member:
  "fst (getSentiment toLowerCase_ascii ex_analyzer (Tokens [''constructor''])) =
     Inr \<lparr>res_score = NaN, numWords = 1, numHits = 1, res_range = Some NaN,
          comparative = NaN, res_type = ''senticon'', res_language = ''en'',
          res_wordScores = Some [\<lparr>ws_word = Some ''constructor'', ws_score = NaN\<rparr>]\<rparr>"
  by (simp add: ex_run_simps ToNumber_def normalize_default_def normalize_score_def)

lemma fl_huge_weight: "fl huge_weight = Num huge_weight"
proof (rule fl_exact [where m = 1 and k = 1023])
  show "huge_weight = real_of_int 1 * 2 powi 1023" by (simp add: huge_weight_def)
  show "- 1074 \<le> (1023 :: int)" by simp
  have "(2 :: real) ^ 1023 < 2 ^ 1076" by (rule power_strict_increasing) simp_all
  then show "\<bar>huge_weight\<bar> < 2 powi (1023 + 53)" by (simp add: huge_weight_def)
  have "(2 :: real) ^ 1023 < 2 ^ 1024" by (rule power_strict_increasing) simp_all
  then show "\<bar>huge_weight\<bar> < overflow_bound" by (simp add: huge_weight_def overflow_bound_def)
qed

lemma fl_huge_weight_twice: "fl (2 * huge_weight) = PosInf"
proof (rule fl_overflow)
  have "2 * huge_weight = 2 * 2 ^ 1023" by (simp only: huge_weight_def)
  also have "\<dots> = (2 :: real) ^ Suc 1023" by (rule power_Suc [symmetric])
  finally show "overflow_bound \<le> 2 * huge_weight" by (simp add: overflow_bound_def)
qed

lemma scan_overflow:
  "forEach (scan_token toLowerCase_ascii ex_huge) scan_init [''huge'', ''huge''] =
     Inr \<lparr>score = PosInf, negator = 1, nrHits = 2,
          wordScores = [\<lparr>ws_word = Some ''huge'', ws_score = Num huge_weight\<rparr>,
                        \<lparr>ws_word = Some ''huge'', ws_score = Num huge_weight\<rparr>]\<rparr>"
proof -
  have 1: "scan_token toLowerCase_ascii ex_huge st ''huge'' =
      Inr (st\<lparr>score := js_add (score st) (Num huge_weight), nrHits := nrHits st + 1,
             wordScores := wordScores st @ [\<lparr>ws_word = Some ''huge'', ws_score = Num huge_weight\<rparr>]\<rparr>)"
    if "negator st = 1" for st
    using that
    by (simp add: ex_huge_def scan_token_def obj_get_def obj_own_def ex_scan_simps ToNumber_def
        fl_huge_weight)
  show ?thesis
    by (simp add: 1 scan_init_def fl_huge_weight fl_huge_weight_twice)
qed

lemma getSentiment_overflow:
  "fst (getSentiment toLowerCase_ascii ex_huge (Tokens [''huge'', ''huge''])) =
     Inr \<lparr>res_score = PosInf, numWords = 2, numHits = 2, res_range = Some NaN,
          comparative = PosInf, res_type = ''senticon'', res_language = ''en'',
          res_wordScores = Some [\<lparr>ws_word = Some ''huge'', ws_score = Num huge_weight\<rparr>,
                                 \<lparr>ws_word = Some ''huge'', ws_score = Num huge_weight\<rparr>]\<rparr>"
proof -
  have v: "vocabulary ex_huge \<noteq> None" by (simp add: ex_huge_def)
  have s: "settings ex_huge = ex_settings" by (simp add: ex_huge_def ex_analyzer_def)
  show ?thesis
    by (simp add: getSentiment_def words_of_def v s scan_overflow ex_settings_def
        normalize_default_def normalize_score_def del: forEach.simps)
qed

lemma small_range:
  fixes x :: real
  assumes "1 \<le> x" and "0 \<le> k"
  shows "2 powi (- k) \<le> x"
proof -
  have "(2::real) powi (- k) \<le> 2 powi 0" using assms(2) by (intro power_int_increasing) simp_all
  then show ?thesis using assms(1) by simp
qed

lemma min_double_le_range: "2 powi (- 1000) \<le> alpha \<Longrightarrow> min_double \<le> alpha"
proof -
  assume a: "2 powi (- 1000) \<le> alpha"
  have "min_double \<le> 2 powi (- 1000)"
    unfolding min_double_def by (rule power_int_increasing) simp_all
  then show ?thesis using a by linarith
qed

lemma clamped_quotient:
  "0 < alpha \<Longrightarrow> max (- 1) (min 1 (s / sqrt (s * s + alpha))) = s / sqrt (s * s + alpha)"
  using quotient_bounds [of alpha s] by simp

lemma clamped_quotient_nonzero:
  assumes "0 < alpha" and "s \<noteq> 0"
  shows "max (- 1) (min 1 (s / sqrt (s\<^sup>2 + alpha))) \<noteq> 0"
proof -
  have "0 < sqrt (s * s + alpha)" using assms(1) by (rule sqrt_denominator_pos)
  then have "s / sqrt (s * s + alpha) \<noteq> 0" using assms(2) by simp
  then show ?thesis using clamped_quotient [OF assms(1), of s] by (simp add: power2_eq_square)
qed

section \<open>Properties of the scan\<close>

text \<open>
  Claim C4. In the scan, a token whose lower-cased form is a negator sets the multiplier
  to -1 and counts as a hit, score and word scores unchanged; a token whose lower-cased
  form is a negation punctuation (and not a negator, which the program tests first) sets
  the multiplier to +1 and changes nothing else, so it is no hit; and the multiplier
  persists: over any run of tokens that are neither, the scan returns with the multiplier
  it started with.
\<close>

theorem scan_token_negation_state:
  "(lc t \<in> set (negations this) \<longrightarrow>
      scan_token lc this st t = Inr (st\<lparr>negator := - 1, nrHits := nrHits st + 1\<rparr>)) \<and>
   (lc t \<notin> set (negations this) \<and> lc t \<in> set (negationPunctuations this) \<longrightarrow>
      scan_token lc this st t = Inr (st\<lparr>negator := 1\<rparr>)) \<and>
   (vocabulary this \<noteq> None \<and>
    (\<forall>w \<in> set ws. lc w \<notin> set (negations this) \<and> lc w \<notin> set (negationPunctuations this)) \<longrightarrow>
      (\<exists>st'. forEach (scan_token lc this) st ws = Inr st' \<and> negator st' = negator st))"
proof (intro conjI impI)
  assume "lc t \<in> set (negations this)"
  then show "scan_token lc this st t = Inr (st\<lparr>negator := - 1, nrHits := nrHits st + 1\<rparr>)"
    by (rule scan_token_negator_token)
next
  assume "lc t \<notin> set (negations this) \<and> lc t \<in> set (negationPunctuations this)"
  then show "scan_token lc this st t = Inr (st\<lparr>negator := 1\<rparr>)"
    by (simp add: scan_token_punctuation_token)
next
  assume h: "vocabulary this \<noteq> None \<and>
    (\<forall>w \<in> set ws. lc w \<notin> set (negations this) \<and> lc w \<notin> set (negationPunctuations this))"
  then obtain st' where r: "forEach (scan_token lc this) st ws = Inr st'"
    using forEach_scan_returns by blast
  have "negator st' = negator st" using h r by (blast intro: forEach_other_negator)
  then show "\<exists>st'. forEach (scan_token lc this) st ws = Inr st' \<and> negator st' = negator st"
    using r by simp
qed

theorem scan_token_negation_state_witness:
  "scan_token toLowerCase_ascii ex_analyzer scan_init ''Not'' =
     Inr \<lparr>score = Num 0, negator = - 1, nrHits = 1, wordScores = []\<rparr> \<and>
   scan_token toLowerCase_ascii ex_analyzer
       \<lparr>score = Num 0, negator = - 1, nrHits = 1, wordScores = []\<rparr> '','' =
     Inr \<lparr>score = Num 0, negator = 1, nrHits = 1, wordScores = []\<rparr> \<and>
   (\<exists>st'. forEach (scan_token toLowerCase_ascii ex_analyzer)
            \<lparr>score = Num 0, negator = - 1, nrHits = 1, wordScores = []\<rparr> [''Good'', ''day''] = Inr st' \<and>
          negator st' = - 1)"
proof -
  let ?neg = "\<lparr>score = Num 0, negator = - 1, nrHits = 1, wordScores = []\<rparr>"
  have a: "toLowerCase_ascii ''Not'' \<in> set (negations ex_analyzer)"
    by (simp add: ex_scan_simps)
  have b: "toLowerCase_ascii '','' \<notin> set (negations ex_analyzer) \<and>
           toLowerCase_ascii '','' \<in> set (negationPunctuations ex_analyzer)"
    by (simp add: ex_scan_simps)
  have c: "vocabulary ex_analyzer \<noteq> None \<and>
           (\<forall>w \<in> set [''Good'', ''day''].
              toLowerCase_ascii w \<notin> set (negations ex_analyzer) \<and>
              toLowerCase_ascii w \<notin> set (negationPunctuations ex_analyzer))"
    by (simp add: ex_scan_simps)
  have 1: "scan_token toLowerCase_ascii ex_analyzer scan_init ''Not'' =
      Inr (scan_init\<lparr>negator := - 1, nrHits := nrHits scan_init + 1\<rparr>)"
    using scan_token_negation_state [of toLowerCase_ascii "''Not''" ex_analyzer scan_init "[]"] a
    by blast
  have 2: "scan_token toLowerCase_ascii ex_analyzer ?neg '','' = Inr (?neg\<lparr>negator := 1\<rparr>)"
    using scan_token_negation_state [of toLowerCase_ascii "'',''" ex_analyzer ?neg "[]"] b
    by blast
  have 3: "\<exists>st'. forEach (scan_token toLowerCase_ascii ex_analyzer) ?neg [''Good'', ''day''] = Inr st' \<and>
          negator st' = negator ?neg"
    using scan_token_negation_state [of toLowerCase_ascii "[]" ex_analyzer ?neg "[''Good'', ''day'']"] c
    by blast
  show ?thesis using 1 2 3 by (simp add: scan_init_def)
qed

text \<open>
  Claim C10. Throughout a scan (after any sequence of tokens, from the initial state)
  the multiplier is +1 or -1; and a negator assigns -1, it does not toggle: after any
  tokens followed by one or more negators in a row, the multiplier is -1.
\<close>

theorem negator_sign_invariant:
  "vocabulary this \<noteq> None \<longrightarrow>
     (\<exists>st. forEach (scan_token lc this) scan_init ws = Inr st \<and>
           (negator st = 1 \<or> negator st = - 1)) \<and>
     (ns \<noteq> [] \<and> (\<forall>n \<in> set ns. lc n \<in> set (negations this)) \<longrightarrow>
        (\<exists>st. forEach (scan_token lc this) scan_init (ws @ ns) = Inr st \<and> negator st = - 1))"
proof (intro impI conjI)
  assume v: "vocabulary this \<noteq> None"
  then obtain st where r: "forEach (scan_token lc this) scan_init ws = Inr st"
    using forEach_scan_returns by blast
  have "negator st = 1 \<or> negator st = - 1"
    using r by (rule forEach_scan_sign) (simp add: scan_init_def)
  then show "\<exists>st. forEach (scan_token lc this) scan_init ws = Inr st \<and>
      (negator st = 1 \<or> negator st = - 1)"
    using r by simp
  assume n: "ns \<noteq> [] \<and> (\<forall>n \<in> set ns. lc n \<in> set (negations this))"
  then obtain st' where "forEach (scan_token lc this) st ns = Inr st'" and "negator st' = - 1"
    using forEach_negators [of ns lc this st] by blast
  then show "\<exists>st. forEach (scan_token lc this) scan_init (ws @ ns) = Inr st \<and> negator st = - 1"
    using r by (simp add: forEach_append)
qed

theorem negator_sign_invariant_witness:
  "vocabulary ex_analyzer \<noteq> None \<and>
   (\<exists>st. forEach (scan_token toLowerCase_ascii ex_analyzer) scan_init [''not'', ''good'', '',''] = Inr st \<and>
         (negator st = 1 \<or> negator st = - 1)) \<and>
   (\<exists>st. forEach (scan_token toLowerCase_ascii ex_analyzer) scan_init
           ([''not'', ''good'', '',''] @ [''not'', ''NOT'']) = Inr st \<and> negator st = - 1)"
proof -
  have v: "vocabulary ex_analyzer \<noteq> None" by (simp add: ex_analyzer_def)
  have n: "[''not'', ''NOT''] \<noteq> [] \<and>
           (\<forall>n \<in> set [''not'', ''NOT'']. toLowerCase_ascii n \<in> set (negations ex_analyzer))"
    by (simp add: ex_scan_simps)
  show ?thesis
    using negator_sign_invariant
      [of ex_analyzer toLowerCase_ascii "[''not'', ''good'', '','']" "[''not'', ''NOT'']"] v n
    by blast
qed

text \<open>
  Claim C1 (the stemmed fallback). The token \<^verbatim>\<open>goods\<close> misses the negators, the negation
  punctuation and the exact lexicon of the example analyzer, stemming is enabled, the
  stemmer gives the single stem \<^verbatim>\<open>good\<close>, and the stemmed lexicon has the weight 3 for
  it: the claim asks for score 3, one hit and one word score. The program returns score
  0, no hit and no word score: the guard \<^verbatim>\<open>tokens.length[0] < 2\<close> is never true, so the
  stemmed lexicon is never read.
\<close>

theorem getSentiment_stemmed_fallback_dead:
  "toLowerCase_ascii ''goods'' \<notin> set (negations ex_analyzer) \<and>
   toLowerCase_ascii ''goods'' \<notin> set (negationPunctuations ex_analyzer) \<and>
   vocabulary ex_analyzer = Some [(''good'', 3), (''bad'', - 2)] \<and>
   obj_get [(''good'', 3), (''bad'', - 2)] (toLowerCase_ascii ''goods'') = None \<and>
   stemmer ex_analyzer = Some ex_stem \<and>
   ex_stem (toLowerCase_ascii ''goods'') = [''good''] \<and>
   vocabularyStem ex_analyzer = Some [(''good'', 3), (''bad'', - 2)] \<and>
   obj_get [(''good'', 3), (''bad'', - 2)] ''good'' = Some (Number 3) \<and>
   fst (getSentiment toLowerCase_ascii ex_analyzer (Tokens [''goods''])) =
     Inr \<lparr>res_score = Num 0, numWords = 1, numHits = 0, res_range = Some (Num 0),
          comparative = Num 0, res_type = ''senticon'', res_language = ''en'',
          res_wordScores = Some []\<rparr>"
  by (simp add: ex_run_simps normalize_default_zero)

section \<open>Properties of getSentiment\<close>

text \<open>
  Claim C8. For every token sequence, every analyzer and every lower-casing,
  \<^verbatim>\<open>getSentiment\<close> returns a result whose \<^verbatim>\<open>numHits\<close> is at most its \<^verbatim>\<open>numWords\<close>; and
  \<^verbatim>\<open>numWords\<close> is the number of input tokens, negators and punctuation included: the
  length of the array the caller passes, or of the array the tokenizer returns for a text.
\<close>

theorem getSentiment_hits_le_words:
  "(\<exists>r. fst (getSentiment lc this (Tokens ts)) = Inr r \<and> numHits r \<le> numWords r \<and>
        numWords r = length ts) \<and>
   (\<exists>r. fst (getSentiment lc this (Text s)) = Inr r \<and> numHits r \<le> numWords r \<and>
        numWords r = length (tokenizer (settings this) s))"
proof -
  have "\<exists>r. fst (getSentiment lc this u) = Inr r \<and> numHits r \<le> numWords r \<and>
          numWords r = length (words_of this u)" for u
  proof (cases "vocabulary this = None")
    case True
    then show ?thesis by (simp add: getSentiment_def Let_def)
  next
    case False
    then obtain st where st: "forEach (scan_token lc this) scan_init (words_of this u) = Inr st"
      using forEach_scan_returns by blast
    have "nrHits st \<le> nrHits scan_init + length (words_of this u)"
      using st by (rule forEach_scan_hits)
    then have "nrHits st \<le> length (words_of this u)" by (simp add: scan_init_def)
    then show ?thesis using False st by (simp add: getSentiment_def Let_def)
  qed
  from this [of "Tokens ts"] this [of "Text s"] show ?thesis by (simp add: words_of_def)
qed

text \<open>
  Claim C9. \<^verbatim>\<open>getSentiment\<close> is read-only on the analyzer: the analyzer the call leaves
  behind, with all its fields (the lexicon, the stemmed lexicon, the two negation tables,
  the settings, the file names, the override dictionary, the stemmer), is the analyzer
  the call was given.
\<close>

theorem getSentiment_read_only: "snd (getSentiment lc this u) = this"
  by (simp add: getSentiment_def Let_def split: sum.splits)

text \<open>
  Claim C3. When no lexicon is loaded (\<^verbatim>\<open>this.vocabulary\<close> is \<^verbatim>\<open>undefined\<close>), then for
  every input \<^verbatim>\<open>getSentiment\<close> returns, without an exception, the result with score 0,
  \<^verbatim>\<open>numHits\<close> 0, \<^verbatim>\<open>comparative\<close> 0, no \<^verbatim>\<open>range\<close> field (and no \<^verbatim>\<open>wordScores\<close> field),
  and \<^verbatim>\<open>numWords\<close> the length of the input token sequence.
\<close>

theorem getSentiment_degraded:
  "vocabulary this = None \<Longrightarrow>
   fst (getSentiment lc this u) =
     Inr \<lparr>res_score = Num 0, numWords = length (words_of this u), numHits = 0, res_range = None,
          comparative = Num 0, res_type = type (settings this),
          res_language = language (settings this), res_wordScores = None\<rparr>"
  by (simp add: getSentiment_def Let_def)

theorem getSentiment_degraded_witness:
  "vocabulary ex_unloaded = None \<and>
   fst (getSentiment toLowerCase_ascii ex_unloaded (Tokens [''not'', ''Good'', ''day''])) =
     Inr \<lparr>res_score = Num 0, numWords = 3, numHits = 0, res_range = None,
          comparative = Num 0, res_type = ''senticon'', res_language = ''en'',
          res_wordScores = None\<rparr>"
proof -
  have h: "vocabulary ex_unloaded = None" by (simp add: ex_unloaded_def)
  show ?thesis
    using h getSentiment_degraded [OF h, of toLowerCase_ascii "Tokens [''not'', ''Good'', ''day'']"]
    by (simp add: words_of_def ex_unloaded_def ex_analyzer_def ex_settings_def)
qed

text \<open>
  Claim C2 (the empty token sequence). With a lexicon loaded the program returns score 0,
  \<^verbatim>\<open>numWords\<close> 0 and \<^verbatim>\<open>numHits\<close> 0, but its \<^verbatim>\<open>comparative\<close> is \<^verbatim>\<open>0 / 0\<close>, which is
  \<^verbatim>\<open>NaN\<close> and not the 0 the claim asks for; with no lexicon loaded all four are 0.
\<close>

theorem getSentiment_empty_comparative:
  "fst (getSentiment toLowerCase_ascii ex_analyzer (Tokens [])) =
     Inr \<lparr>res_score = Num 0, numWords = 0, numHits = 0, res_range = Some (Num 0),
          comparative = NaN, res_type = ''senticon'', res_language = ''en'',
          res_wordScores = Some []\<rparr> \<and>
   fst (getSentiment toLowerCase_ascii ex_unloaded (Tokens [])) =
     Inr \<lparr>res_score = Num 0, numWords = 0, numHits = 0, res_range = None,
          comparative = Num 0, res_type = ''senticon'', res_language = ''en'',
          res_wordScores = None\<rparr>"
  by (simp add: ex_run_simps ex_unloaded_def normalize_default_zero)

section \<open>Properties of normalize\<close>

text \<open>
  Claim C6, as amended. For every finite score and every positive double alpha,
  \<^verbatim>\<open>normalize(score, alpha)\<close> is a number between -1 and 1, and it is 0 for the score 0.
  When the magnitude of the score lies between \<open>2 powi (- 500)\<close> and \<open>2 ^ 500\<close> and alpha
  between \<open>2 powi (- 1000)\<close> and \<open>2 ^ 1000\<close>, so that no operation overflows or underflows,
  the result is \<open>score / sqrt (score\<^sup>2 + alpha)\<close> clamped to the interval from -1 to 1, up
  to a relative rounding error of \<open>1 / 2 ^ 51\<close>. And whenever a result of \<^verbatim>\<open>getSentiment\<close>
  has a \<^verbatim>\<open>range\<close> field and its score is a finite number, the field is a number between
  -1 and 1. (The score is no finite number when the sum of the weights overflows, and when
  a token names a member that the lexicon inherits from \<^verbatim>\<open>Object.prototype\<close>.)
\<close>

theorem normalize_score_rounded:
  "(min_double \<le> alpha \<longrightarrow>
      (\<exists>y. normalize_score (Num s) (Num alpha) = Num y \<and> - 1 \<le> y \<and> y \<le> 1)) \<and>
   (min_double \<le> alpha \<longrightarrow> normalize_score (Num 0) (Num alpha) = Num 0) \<and>
   (2 powi (- 500) \<le> \<bar>s\<bar> \<and> \<bar>s\<bar> \<le> 2 ^ 500 \<and> 2 powi (- 1000) \<le> alpha \<and> alpha \<le> 2 ^ 1000 \<longrightarrow>
      (\<exists>n. normalize_score (Num s) (Num alpha) = Num n \<and>
           \<bar>n - max (- 1) (min 1 (s / sqrt (s\<^sup>2 + alpha)))\<bar>
             \<le> \<bar>max (- 1) (min 1 (s / sqrt (s\<^sup>2 + alpha)))\<bar> / 2 ^ 51)) \<and>
   (fst (getSentiment lc this u) = Inr r \<and> res_score r = Num sc \<and> res_range r = Some x \<longrightarrow>
      (\<exists>y. x = Num y \<and> - 1 \<le> y \<and> y \<le> 1))"
proof (intro conjI impI)
  assume "min_double \<le> alpha"
  then show "\<exists>y. normalize_score (Num s) (Num alpha) = Num y \<and> - 1 \<le> y \<and> y \<le> 1"
    by (rule normalize_score_finite)
next
  assume "min_double \<le> alpha"
  then show "normalize_score (Num 0) (Num alpha) = Num 0" by (rule normalize_score_zero)
next
  assume h: "2 powi (- 500) \<le> \<bar>s\<bar> \<and> \<bar>s\<bar> \<le> 2 ^ 500 \<and> 2 powi (- 1000) \<le> alpha \<and> alpha \<le> 2 ^ 1000"
  then have "0 < alpha" using min_double_le_range [of alpha] min_double_pos by linarith
  then have c: "max (- 1) (min 1 (s / sqrt (s\<^sup>2 + alpha))) = s / sqrt (s * s + alpha)"
    using clamped_quotient [of alpha s] by (simp add: power2_eq_square)
  from h have "\<exists>n. normalize_score (Num s) (Num alpha) = Num n \<and>
           \<bar>n - s / sqrt (s * s + alpha)\<bar> \<le> \<bar>s / sqrt (s * s + alpha)\<bar> / 2 ^ 51"
    by (intro normalize_score_close) simp_all
  then show "\<exists>n. normalize_score (Num s) (Num alpha) = Num n \<and>
           \<bar>n - max (- 1) (min 1 (s / sqrt (s\<^sup>2 + alpha)))\<bar>
             \<le> \<bar>max (- 1) (min 1 (s / sqrt (s\<^sup>2 + alpha)))\<bar> / 2 ^ 51"
    unfolding c .
next
  assume h: "fst (getSentiment lc this u) = Inr r \<and> res_score r = Num sc \<and> res_range r = Some x"
  then have "x = normalize_default (Num sc)"
    by (auto simp: getSentiment_def Let_def split: if_splits sum.splits)
  then show "\<exists>y. x = Num y \<and> - 1 \<le> y \<and> y \<le> 1"
    unfolding normalize_default_def using normalize_score_finite [OF min_double_le_15] by simp
qed

theorem normalize_score_rounded_witness:
  "min_double \<le> 15 \<and> 2 powi (- 500) \<le> \<bar>3 :: real\<bar> \<and> \<bar>3 :: real\<bar> \<le> 2 ^ 500 \<and>
   2 powi (- 1000) \<le> (15 :: real) \<and> (15 :: real) \<le> 2 ^ 1000 \<and>
   (\<exists>y. normalize_score (Num 3) (Num 15) = Num y \<and> - 1 \<le> y \<and> y \<le> 1) \<and>
   normalize_score (Num 0) (Num 15) = Num 0 \<and>
   (\<exists>n. normalize_score (Num 3) (Num 15) = Num n \<and>
        \<bar>n - max (- 1) (min 1 (3 / sqrt (3\<^sup>2 + 15)))\<bar>
          \<le> \<bar>max (- 1) (min 1 (3 / sqrt (3\<^sup>2 + 15)))\<bar> / 2 ^ 51) \<and>
   fst (getSentiment toLowerCase_ascii ex_analyzer (Tokens [''Good''])) =
     Inr \<lparr>res_score = Num 3, numWords = 1, numHits = 1,
          res_range = Some (normalize_default (Num 3)),
          comparative = Num 3, res_type = ''senticon'', res_language = ''en'',
          res_wordScores = Some [\<lparr>ws_word = Some ''good'', ws_score = Num 3\<rparr>]\<rparr> \<and>
   (\<exists>y. normalize_default (Num 3) = Num y \<and> - 1 \<le> y \<and> y \<le> 1)"
proof -
  let ?r = "\<lparr>res_score = Num 3, numWords = 1, numHits = 1,
          res_range = Some (normalize_default (Num 3)),
          comparative = Num 3, res_type = ''senticon'', res_language = ''en'',
          res_wordScores = Some [\<lparr>ws_word = Some ''good'', ws_score = Num 3\<rparr>]\<rparr>"
  have a: "min_double \<le> 15" by (rule min_double_le_15)
  have s1: "2 powi (- 500) \<le> \<bar>3 :: real\<bar>" using small_range [of 3 500] by simp
  have s2: "\<bar>3 :: real\<bar> \<le> 2 ^ 500" by simp
  have a1: "2 powi (- 1000) \<le> (15 :: real)" using small_range [of 15 1000] by simp
  have a2: "(15 :: real) \<le> 2 ^ 1000" by simp
  have f3: "fl 3 = Num 3" using fl_of_int [of 3] by simp
  have run: "fst (getSentiment toLowerCase_ascii ex_analyzer (Tokens [''Good''])) = Inr ?r"
    by (simp add: ex_run_simps ToNumber_def f3)
  have sc: "res_score ?r = Num 3" and rg: "res_range ?r = Some (normalize_default (Num 3))"
    by simp_all
  note t = normalize_score_rounded
    [of 15 3 toLowerCase_ascii ex_analyzer "Tokens [''Good'']" ?r 3 "normalize_default (Num 3)"]
  have 1: "\<exists>y. normalize_score (Num 3) (Num 15) = Num y \<and> - 1 \<le> y \<and> y \<le> 1"
    using t a by blast
  have 2: "normalize_score (Num 0) (Num 15) = Num 0" using t a by blast
  have 3: "\<exists>n. normalize_score (Num 3) (Num 15) = Num n \<and>
        \<bar>n - max (- 1) (min 1 (3 / sqrt (3\<^sup>2 + 15)))\<bar>
          \<le> \<bar>max (- 1) (min 1 (3 / sqrt (3\<^sup>2 + 15)))\<bar> / 2 ^ 51"
    using t s1 s2 a1 a2 by blast
  have 4: "\<exists>y. normalize_default (Num 3) = Num y \<and> - 1 \<le> y \<and> y \<le> 1"
    using t run sc rg by blast
  show ?thesis using a s1 s2 a1 a2 1 2 3 run 4 by (intro conjI) assumption+
qed

text \<open>
  Claim C6 as stated fails on doubles. For the score \<open>2 ^ 1000\<close> the square overflows to
  infinity and \<^verbatim>\<open>normalize\<close> returns 0, where the clamped quotient is not 0; for the
  score \<open>25 / 8\<close> the result is a double, which the quotient \<open>25 / sqrt 1585\<close> is not; and
  for the two tokens \<^verbatim>\<open>huge\<close>, \<^verbatim>\<open>huge\<close> of weight \<open>2 ^ 1023\<close> each, the score is
  \<^verbatim>\<open>Infinity\<close> and the \<^verbatim>\<open>range\<close> field is \<^verbatim>\<open>NaN\<close>, which lies in no interval.
\<close>

theorem normalize_score_not_quotient:
  "normalize_score (Num (2 ^ 1000)) (Num 15) = Num 0 \<and>
   max (- 1) (min 1 (2 ^ 1000 / sqrt ((2 ^ 1000)\<^sup>2 + 15))) \<noteq> (0 :: real) \<and>
   normalize_score (Num (25 / 8)) (Num 15) = Num (5656074817410445 / 2 ^ 53) \<and>
   max (- 1) (min 1 (25 / 8 / sqrt ((25 / 8)\<^sup>2 + 15))) \<noteq> (5656074817410445 / 2 ^ 53 :: real) \<and>
   fst (getSentiment toLowerCase_ascii ex_huge (Tokens [''huge'', ''huge''])) =
     Inr \<lparr>res_score = PosInf, numWords = 2, numHits = 2, res_range = Some NaN,
          comparative = PosInf, res_type = ''senticon'', res_language = ''en'',
          res_wordScores = Some [\<lparr>ws_word = Some ''huge'', ws_score = Num huge_weight\<rparr>,
                                 \<lparr>ws_word = Some ''huge'', ws_score = Num huge_weight\<rparr>]\<rparr>"
proof (intro conjI)
  show "fst (getSentiment toLowerCase_ascii ex_huge (Tokens [''huge'', ''huge''])) =
     Inr \<lparr>res_score = PosInf, numWords = 2, numHits = 2, res_range = Some NaN,
          comparative = PosInf, res_type = ''senticon'', res_language = ''en'',
          res_wordScores = Some [\<lparr>ws_word = Some ''huge'', ws_score = Num huge_weight\<rparr>,
                                 \<lparr>ws_word = Some ''huge'', ws_score = Num huge_weight\<rparr>]\<rparr>"
    by (rule getSentiment_overflow)
  show "normalize_score (Num (2 ^ 1000)) (Num 15) = Num 0" by (rule normalize_overflow)
  have "(0 :: real) < 15" and "(2 ^ 1000 :: real) \<noteq> 0" by simp_all
  then show "max (- 1) (min 1 (2 ^ 1000 / sqrt ((2 ^ 1000)\<^sup>2 + 15))) \<noteq> (0 :: real)"
    by (rule clamped_quotient_nonzero)
  show "normalize_score (Num (25 / 8)) (Num 15) = Num (5656074817410445 / 2 ^ 53)"
    by (rule normalize_a)
  have c2: "max (- 1) (min 1 (25 / 8 / sqrt ((25 / 8)\<^sup>2 + 15))) =
      (25 / 8 / sqrt (25 / 8 * (25 / 8) + 15) :: real)"
    using clamped_quotient [of 15 "25 / 8"] by (simp add: power2_eq_square)
  have n2: "(25 / 8 / sqrt (25 / 8 * (25 / 8) + 15) :: real) \<noteq> 5656074817410445 / 2 ^ 53"
  proof
    assume e: "(25 / 8 / sqrt (25 / 8 * (25 / 8) + 15) :: real) = 5656074817410445 / 2 ^ 53"
    define d :: real where "d = sqrt (25 / 8 * (25 / 8) + 15)"
    define c :: real where "c = 5656074817410445 / 2 ^ 53"
    have p: "0 < d" unfolding d_def by (rule sqrt_denominator_pos) simp
    have dd: "d * d = 25 / 8 * (25 / 8) + 15" unfolding d_def by simp
    from e have "25 / 8 / d = c" by (simp only: d_def c_def)
    then have eq: "c * d = 25 / 8" using p by (simp add: field_simps)
    have "c * c * (d * d) = (c * d) * (c * d)" by (simp only: mult_ac)
    also have "\<dots> = 25 / 8 * (25 / 8)" unfolding eq by (rule refl)
    finally have "c * c * (25 / 8 * (25 / 8) + 15) = 25 / 8 * (25 / 8)" unfolding dd .
    then show False unfolding c_def by simp
  qed
  show "max (- 1) (min 1 (25 / 8 / sqrt ((25 / 8)\<^sup>2 + 15))) \<noteq> (5656074817410445 / 2 ^ 53 :: real)"
    unfolding c2 by (rule n2)
qed




section \<open>The override dictionary and the stemmed lexicon\<close>

text \<open>
  Claim C5, as amended. When the lexicon file is read and an override dictionary is
  given, \<^verbatim>\<open>loadVocabulary\<close> returns, and the lexicon it leaves is the base lexicon after the
  assignment of every override entry: each override key has the override weight (also
  for the exact lookup of the scan), except a key \<^verbatim>\<open>__proto__\<close> that the base lexicon does
  not own, which an assignment cannot create; every other key keeps its base weight. The
  stemmed lexicon is derived after the merge, from the merged lexicon: its entry at a stem
  is the merged weight of the last key, in the enumeration order of the merged lexicon,
  whose stemming gives exactly that one token (no entry when there is no such key, and
  never one at \<^verbatim>\<open>__proto__\<close>); without a stemmer it is empty. So the entry at the stem of
  an overridden word is the override weight exactly when the last key with that stem
  carries it. This is a property of the table that \<^verbatim>\<open>loadVocabulary\<close> leaves: the scan of
  \<^verbatim>\<open>getSentiment\<close> never reads the stemmed lexicon (claim C1, lemma
  \<open>getSentiment_ignores_vocabularyStem\<close>).
\<close>

theorem loadVocabulary_override:
  assumes "readVocabulary files (vocabulary_file (settings this)) = Some base"
    and "dict this = Some d"
  shows "\<exists>this' loadedFiles' vstem.
      loadVocabulary files (this, loadedFiles) = Inr (this', loadedFiles') \<and>
      vocabulary this' = Some (merge_override base d) \<and>
      vocabularyStem this' = Some vstem \<and>
      (\<forall>k. obj_own (merge_override base d) k =
           (case obj_own d k of
              None \<Rightarrow> obj_own base k
            | Some x \<Rightarrow> if k = ''__proto__'' \<and> obj_own base k = None then None else Some x)) \<and>
      (\<forall>w x. obj_own d w = Some x \<longrightarrow> w \<noteq> ''__proto__'' \<longrightarrow>
           obj_get (merge_override base d) w = Some (Number x)) \<and>
      (\<forall>stem s. stemmer this = Some stem \<longrightarrow>
           obj_own vstem s =
             (if s = ''__proto__'' \<or> stem_writers stem s (obj_entries (merge_override base d)) = []
              then None
              else Some (snd (last (stem_writers stem s (obj_entries (merge_override base d))))))) \<and>
      (stemmer this = None \<longrightarrow> vstem = [])"
proof -
  let ?this1 = "this\<lparr>vocabularyFileName := vocabulary_file (settings this),
                      negationFileName := negation_file (settings this),
                      negationPunctuationFileName := negationPunctuation_file (settings this)\<rparr>"
  define vocab where "vocab = merge_override base d"
  define vstem where
    "vstem = (case stemmer this of
                None \<Rightarrow> []
              | Some stem \<Rightarrow> foldl (stem_word stem) [] (obj_entries vocab))"
  have f1: "readVocabulary files (vocabularyFileName ?this1) = Some base"
    and d1: "dict ?this1 = Some d" using assms by simp_all
  have l: "load_lexicon files (?this1, loadedFiles) =
        Inr (?this1\<lparr>vocabulary := Some vocab, vocabularyStem := Some vstem\<rparr>,
             insert (vocabularyFileName ?this1) loadedFiles)"
    using load_lexicon_override [OF f1 d1, of loadedFiles] unfolding vocab_def vstem_def by simp
  obtain this' loadedFiles' where
    r: "loadVocabulary files (this, loadedFiles) = Inr (this', loadedFiles')" and
    v: "vocabulary this' = Some vocab" and vs: "vocabularyStem this' = Some vstem"
    using l by (simp add: loadVocabulary_def)
  have m: "obj_own vocab k =
           (case obj_own d k of
              None \<Rightarrow> obj_own base k
            | Some x \<Rightarrow> if k = ''__proto__'' \<and> obj_own base k = None then None else Some x)" for k
  proof -
    let ?a = "this\<lparr>vocabulary := Some base\<rparr>"
    have "dict ?a = Some d" and "vocabulary ?a = Some base" using assms(2) by simp_all
    from addVocabulary_merge(2) [OF this] show ?thesis by (simp add: vocab_def)
  qed
  have ex: "obj_get vocab w = Some (Number x)"
    if "obj_own d w = Some x" and "w \<noteq> ''__proto__''" for w x
    using m [of w] that by (simp add: obj_get_def)
  have st: "obj_own vstem s =
             (if s = ''__proto__'' \<or> stem_writers stem s (obj_entries vocab) = [] then None
              else Some (snd (last (stem_writers stem s (obj_entries vocab)))))"
    if "stemmer this = Some stem" for stem s
  proof -
    have "obj_own ([] :: real js_object) ''__proto__'' = None" by (simp add: obj_own_def)
    from foldl_stem_word_own [OF this, of stem "obj_entries vocab" s]
    show ?thesis using that by (simp add: vstem_def obj_own_def)
  qed
  have ns: "vstem = []" if "stemmer this = None" using that by (simp add: vstem_def)
  show ?thesis
    using r v vs m ex st ns unfolding vocab_def by (intro exI conjI allI impI) assumption+
qed

theorem loadVocabulary_override_witness:
  "readVocabulary ex_files_loves (vocabulary_file (settings ex_fresh_love)) = Some [(''loves'', 2)] \<and>
   dict ex_fresh_love = Some [(''love'', 10)] \<and>
   stemmer ex_fresh_love = Some ex_stem_love \<and>
   merge_override [(''loves'', 2)] [(''love'', 10)] = [(''loves'', 2), (''love'', 10)] \<and>
   stem_writers ex_stem_love ''love'' [(''loves'', 2), (''love'', 10)] =
     [(''loves'', 2), (''love'', 10)] \<and>
   (\<exists>this' loadedFiles' vstem.
      loadVocabulary ex_files_loves (ex_fresh_love, {}) = Inr (this', loadedFiles') \<and>
      vocabulary this' = Some [(''loves'', 2), (''love'', 10)] \<and>
      vocabularyStem this' = Some vstem \<and>
      obj_get [(''loves'', 2), (''love'', 10)] ''love'' = Some (Number 10) \<and>
      obj_own vstem ''love'' = Some 10)"
proof -
  let ?base = "[(''loves'', 2)] :: real js_object"
  let ?d = "[(''love'', 10)] :: real js_object"
  let ?vocab = "[(''loves'', 2), (''love'', 10)] :: real js_object"
  have rd: "readVocabulary ex_files_loves (vocabulary_file (settings ex_fresh_love)) = Some ?base"
    by (simp add: ex_files_loves_def ex_fresh_love_def vocabulary_file_def ex_settings_def)
  have d: "dict ex_fresh_love = Some ?d" by (simp add: ex_fresh_love_def)
  have st: "stemmer ex_fresh_love = Some ex_stem_love" by (simp add: ex_fresh_love_def)
  have mo: "merge_override ?base ?d = ?vocab"
    by (simp add: merge_override_def obj_entries_def obj_set_def obj_own_def array_index_def
        digit_value_def)
  have en: "obj_entries ?vocab = ?vocab" by (simp add: obj_entries_def)
  have sw: "stem_writers ex_stem_love ''love'' ?vocab = ?vocab"
    by (simp add: stem_writers_def ex_stem_love_def)
  have dl: "obj_own ?d ''love'' = Some 10" by (simp add: obj_own_def)
  have "\<exists>this' loadedFiles' vstem.
      loadVocabulary ex_files_loves (ex_fresh_love, {}) = Inr (this', loadedFiles') \<and>
      vocabulary this' = Some (merge_override ?base ?d) \<and>
      vocabularyStem this' = Some vstem \<and>
      (\<forall>k. obj_own (merge_override ?base ?d) k =
           (case obj_own ?d k of
              None \<Rightarrow> obj_own ?base k
            | Some x \<Rightarrow> if k = ''__proto__'' \<and> obj_own ?base k = None then None else Some x)) \<and>
      (\<forall>w x. obj_own ?d w = Some x \<longrightarrow> w \<noteq> ''__proto__'' \<longrightarrow>
           obj_get (merge_override ?base ?d) w = Some (Number x)) \<and>
      (\<forall>stem s. stemmer ex_fresh_love = Some stem \<longrightarrow>
           obj_own vstem s =
             (if s = ''__proto__'' \<or> stem_writers stem s (obj_entries (merge_override ?base ?d)) = []
              then None
              else Some (snd (last (stem_writers stem s (obj_entries (merge_override ?base ?d))))))) \<and>
      (stemmer ex_fresh_love = None \<longrightarrow> vstem = [])"
    by (rule loadVocabulary_override [OF rd d])
  then obtain this' loadedFiles' vstem where
    all: "loadVocabulary ex_files_loves (ex_fresh_love, {}) = Inr (this', loadedFiles') \<and>
      vocabulary this' = Some (merge_override ?base ?d) \<and>
      vocabularyStem this' = Some vstem \<and>
      (\<forall>k. obj_own (merge_override ?base ?d) k =
           (case obj_own ?d k of
              None \<Rightarrow> obj_own ?base k
            | Some x \<Rightarrow> if k = ''__proto__'' \<and> obj_own ?base k = None then None else Some x)) \<and>
      (\<forall>w x. obj_own ?d w = Some x \<longrightarrow> w \<noteq> ''__proto__'' \<longrightarrow>
           obj_get (merge_override ?base ?d) w = Some (Number x)) \<and>
      (\<forall>stem s. stemmer ex_fresh_love = Some stem \<longrightarrow>
           obj_own vstem s =
             (if s = ''__proto__'' \<or> stem_writers stem s (obj_entries (merge_override ?base ?d)) = []
              then None
              else Some (snd (last (stem_writers stem s (obj_entries (merge_override ?base ?d))))))) \<and>
      (stemmer ex_fresh_love = None \<longrightarrow> vstem = [])"
    by (elim exE) (erule that)
  note r = all [THEN conjunct1]
  note v = all [THEN conjunct2, THEN conjunct1, unfolded mo]
  note vs = all [THEN conjunct2, THEN conjunct2, THEN conjunct1]
  note ex = all [THEN conjunct2, THEN conjunct2, THEN conjunct2, THEN conjunct2, THEN conjunct1,
    rule_format, unfolded mo]
  note sl = all [THEN conjunct2, THEN conjunct2, THEN conjunct2, THEN conjunct2, THEN conjunct2,
    THEN conjunct1, rule_format, unfolded mo en]
  have np: "''love'' \<noteq> ''__proto__''" by simp
  have 1: "obj_get ?vocab ''love'' = Some (Number 10)" using dl np by (rule ex)
  have 2: "obj_own vstem ''love'' = Some 10" using sl [OF st, of "''love''"] by (simp add: sw)
  have "\<exists>this' loadedFiles' vstem.
      loadVocabulary ex_files_loves (ex_fresh_love, {}) = Inr (this', loadedFiles') \<and>
      vocabulary this' = Some ?vocab \<and> vocabularyStem this' = Some vstem \<and>
      obj_get ?vocab ''love'' = Some (Number 10) \<and> obj_own vstem ''love'' = Some 10"
    by (intro exI conjI) (rule r v vs 1 2)+
  then show ?thesis using rd d st mo sw by (intro conjI) assumption+
qed

text \<open>
  Claim C5 as stated fails where two lexicon words share a stem. The lexicon file holds
  \<^verbatim>\<open>love\<close> with 3 and \<^verbatim>\<open>loves\<close> with 2, the override dictionary gives \<^verbatim>\<open>love\<close> the
  weight 10, and both words stem to \<^verbatim>\<open>love\<close>. After \<^verbatim>\<open>loadVocabulary\<close> the exact
  lookup of \<^verbatim>\<open>love\<close> gives 10, but the stemmed lookup at its stem gives 2, the weight of
  \<^verbatim>\<open>loves\<close>, which was written last. And it fails for the override key \<^verbatim>\<open>__proto__\<close>:
  with the lexicon \<^verbatim>\<open>good\<close> and the override dictionary giving \<^verbatim>\<open>__proto__\<close> the
  weight 5, the lexicon after \<^verbatim>\<open>loadVocabulary\<close> has no such key, and the lookup gives
  the inherited member.
\<close>

theorem loadVocabulary_stem_collision:
  "loadVocabulary ex_files_love (ex_fresh_love, {}) =
     Inr (\<lparr>settings = ex_settings, dict = Some [(''love'', 10)], stemmer = Some ex_stem_love,
           vocabularyFileName = ''./languages/en/senticon_en.json'',
           negationFileName = ''./languages/en/negations_en.json'',
           negationPunctuationFileName = ''./languages/en/negationPunctuations_en.json'',
           vocabulary = Some [(''love'', 10), (''loves'', 2)],
           vocabularyStem = Some [(''love'', 2)],
           negations = [], negationPunctuations = []\<rparr>,
          {''./languages/en/senticon_en.json''}) \<and>
   ex_stem_love ''love'' = [''love''] \<and>
   obj_get [(''love'', 10), (''loves'', 2)] ''love'' = Some (Number 10) \<and>
   obj_get [(''love'', 2)] ''love'' = Some (Number 2) \<and>
   obj_get [(''love'', 2)] ''love'' \<noteq> Some (Number 10) \<and>
   loadVocabulary ex_files_good (ex_fresh_proto, {}) =
     Inr (\<lparr>settings = ex_settings, dict = Some [(''__proto__'', 5)], stemmer = Some ex_stem_love,
           vocabularyFileName = ''./languages/en/senticon_en.json'',
           negationFileName = ''./languages/en/negations_en.json'',
           negationPunctuationFileName = ''./languages/en/negationPunctuations_en.json'',
           vocabulary = Some [(''good'', 3)],
           vocabularyStem = Some [(''good'', 3)],
           negations = [], negationPunctuations = []\<rparr>,
          {''./languages/en/senticon_en.json''}) \<and>
   obj_get [(''good'', 3)] ''__proto__'' = Some Inherited"
  by (simp add: ex_load_simps obj_get_def object_prototype_keys_def ex_files_love_def
      ex_files_good_def ex_fresh_love_def ex_fresh_proto_def ex_stem_love_def)

end
